theory Spec2Isabelle
  imports Main "HOL-Library.Sublist"
begin

section \<open>Python values, exceptions and the object store\<close>

text \<open>
  The module \<^verbatim>\<open>ludwig/schema/__init__.py\<close> assembles the configuration schema
  (\<^verbatim>\<open>get_schema\<close>), builds the extended structural validator
  (\<^verbatim>\<open>get_validator\<close>) and runs the validation pipeline
  (\<^verbatim>\<open>validate_config\<close>). Everything else it calls lives in other modules;
  those collaborators are parameters of the model (the record \<open>env\<close> below).

  A Python value is a tree of scalars, lists, tuples and dictionaries. A dictionary is
  an association list in insertion order, as Python keeps it; the keys of a
  configuration are strings. Floating-point scalars carry an uninterpreted payload:
  the module does no arithmetic.
\<close>

typedecl float64

datatype pyval =
    PNone
  | PBool bool
  | PInt int
  | PFloat float64
  | PStr string
  | PList "pyval list"
  | PTuple "pyval list"
  | PDict "(string \<times> pyval) list"

text \<open>
  Exceptions. \<open>AttributeError\<close> and \<open>TypeError\<close> are the two the module's own
  expressions can raise (\<^verbatim>\<open>.get\<close> on a value that is no dictionary, \<^verbatim>\<open>**\<close> on a
  value that is no mapping, an unhashable cache key). \<open>Raised\<close> is an exception of a
  collaborator, named by the collaborator. \<open>UnknownModelType\<close> is the schema-assembly
  error of the specification.
\<close>

datatype exn =
    AttributeError
  | TypeError
  | UnknownModelType pyval
  | Raised string

text \<open>
  Objects that are passed by reference (the caller's document, the upgraded document)
  live in a store; a collaborator that receives such an object may change it in place,
  so it takes the store and returns the new one. A cell holds a whole document by
  value: sharing of sub-objects between two documents is not represented.
\<close>

type_synonym addr = nat
type_synonym store = "addr \<Rightarrow> pyval"

subsection \<open>Dictionary operations\<close>

text \<open>\<^verbatim>\<open>d.get(k, default)\<close>: only a dictionary has the method.\<close>

fun py_get :: "pyval \<Rightarrow> string \<Rightarrow> pyval \<Rightarrow> exn + pyval" where
  "py_get (PDict kvs) k d = Inr (case map_of kvs k of Some v \<Rightarrow> v | None \<Rightarrow> d)"
| "py_get _ k d = Inl AttributeError"

text \<open>\<^verbatim>\<open>d[k] = v\<close>: an existing key keeps its place, a new key goes last.\<close>

fun dict_set :: "(string \<times> pyval) list \<Rightarrow> string \<Rightarrow> pyval \<Rightarrow> (string \<times> pyval) list" where
  "dict_set [] k v = [(k, v)]"
| "dict_set ((k', v') # kvs) k v =
     (if k' = k then (k', v) # kvs else (k', v') # dict_set kvs k v)"

text \<open>A dictionary display \<^verbatim>\<open>{k1: v1, k2: v2, ...}\<close> stores its entries left to right.\<close>

definition dict_display :: "(string \<times> pyval) list \<Rightarrow> pyval" where
  "dict_display kvs = PDict (foldl (\<lambda>d (k, v). dict_set d k v) [] kvs)"

definition dict_keys :: "pyval \<Rightarrow> string list" where
  "dict_keys d = (case d of PDict kvs \<Rightarrow> map fst kvs | _ \<Rightarrow> [])"

text \<open>
  \<^verbatim>\<open>f(**m)\<close>: the value after \<^verbatim>\<open>**\<close> must be a mapping; its entries become the
  keyword arguments.
\<close>

fun unpack_kwargs :: "pyval \<Rightarrow> exn + (string \<times> pyval) list" where
  "unpack_kwargs (PDict kvs) = Inr kvs"
| "unpack_kwargs _ = Inl TypeError"

text \<open>Lists and dictionaries cannot be hashed; a tuple can when its elements can.\<close>

fun hashable :: "pyval \<Rightarrow> bool" where
  "hashable (PList xs) = False"
| "hashable (PDict kvs) = False"
| "hashable (PTuple xs) = list_all hashable xs"
| "hashable _ = True"

subsection \<open>Constants of \<^verbatim>\<open>ludwig.constants\<close>\<close>

text \<open>
  Modelled from the spec: the module \<^verbatim>\<open>ludwig.constants\<close> is not among the sources.
  The specification names the top-level keys of a configuration document
  (\<^verbatim>\<open>model_type\<close>, \<^verbatim>\<open>input_features\<close>, \<^verbatim>\<open>output_features\<close>, \<^verbatim>\<open>combiner\<close>,
  \<^verbatim>\<open>trainer\<close>, \<^verbatim>\<open>preprocessing\<close>, \<^verbatim>\<open>hyperopt\<close>, \<^verbatim>\<open>defaults\<close>) and the section
  \<^verbatim>\<open>preprocessing.split\<close>. The value of \<^verbatim>\<open>MODEL_ECD\<close>, the standard model type,
  is not given there; it is the field \<open>MODEL_ECD\<close> of \<open>env\<close>.
\<close>

definition MODEL_TYPE :: string where "MODEL_TYPE = ''model_type''"
definition INPUT_FEATURES :: string where "INPUT_FEATURES = ''input_features''"
definition OUTPUT_FEATURES :: string where "OUTPUT_FEATURES = ''output_features''"
definition COMBINER :: string where "COMBINER = ''combiner''"
definition TRAINER :: string where "TRAINER = ''trainer''"
definition PREPROCESSING :: string where "PREPROCESSING = ''preprocessing''"
definition HYPEROPT :: string where "HYPEROPT = ''hyperopt''"
definition DEFAULTS :: string where "DEFAULTS = ''defaults''"
definition SPLIT :: string where "SPLIT = ''split''"


section \<open>Collaborators\<close>

text \<open>
  The sixteen semantic checks of \<^verbatim>\<open>ludwig.schema.auxiliary_validations\<close>, by their
  names in the import list.
\<close>

datatype check =
    check_validation_metrics_are_valid
  | check_feature_names_unique
  | check_tied_features_are_valid
  | check_dependent_features
  | check_training_runway
  | check_gbm_horovod_incompatibility
  | check_gbm_feature_types
  | check_ray_backend_in_memory_preprocessing
  | check_sequence_concat_combiner_requirements
  | check_tabtransformer_combiner_requirements
  | check_comparator_combiner_requirements
  | check_class_balance_preprocessing
  | check_sampling_exclusivity
  | check_hyperopt_search_space
  | check_hyperopt_metric_targets
  | check_gbm_single_output_feature

text \<open>
  A type checker of the \<^verbatim>\<open>jsonschema\<close> library maps the name of a structural type to
  its predicate; a validator class has an identity and a type checker.
\<close>

type_synonym type_checker = "string \<Rightarrow> (pyval \<Rightarrow> bool) option"

record validator_cls =
  cls_id :: nat
  TYPE_CHECKER :: type_checker

text \<open>The object \<^verbatim>\<open>get_splitter\<close> returns; the module only calls its \<^verbatim>\<open>validate\<close>.\<close>

datatype splitter =
  Splitter (splitter_validate: "addr \<Rightarrow> store \<Rightarrow> (exn + unit) \<times> store")

text \<open>
  Every function the module imports is a field of \<open>env\<close>, under its name in the source.
  A call that can raise returns \<open>Inl\<close> of the exception. A function that receives a
  document receives its address and the store, and returns the store it leaves. The
  schema fragment providers take no document; only \<^verbatim>\<open>get_trainer_jsonschema\<close> takes
  the model type.
\<close>

record env =
  MODEL_ECD :: string
  upgrade_config_dict_to_latest_version :: "addr \<Rightarrow> store \<Rightarrow> (exn + addr) \<times> store"
  get_splitter :: "(string \<times> pyval) list \<Rightarrow> exn + splitter"
  validate :: "addr \<Rightarrow> pyval \<Rightarrow> validator_cls \<Rightarrow> store \<Rightarrow> (exn + unit) \<times> store"
  get_model_type_jsonschema :: "exn + pyval"
  get_input_feature_jsonschema :: "exn + pyval"
  get_output_feature_jsonschema :: "exn + pyval"
  get_combiner_jsonschema :: "exn + pyval"
  get_trainer_jsonschema :: "pyval \<Rightarrow> exn + pyval"
  get_preprocessing_jsonschema :: "exn + pyval"
  get_hyperopt_jsonschema :: "exn + pyval"
  get_defaults_jsonschema :: "exn + pyval"
  auxiliary_validations :: "check \<Rightarrow> addr \<Rightarrow> store \<Rightarrow> (exn + unit) \<times> store"
  Draft7Validator_TYPE_CHECKER :: type_checker

section \<open>Program state and the trace of a run\<close>

text \<open>
  How \<^verbatim>\<open>get_schema\<close> was called: \<^verbatim>\<open>functools.lru_cache\<close> keys its entries by the
  positional and the keyword arguments, so \<^verbatim>\<open>get_schema()\<close>, \<^verbatim>\<open>get_schema(m)\<close> and
  \<^verbatim>\<open>get_schema(model_type=m)\<close> are three different keys. Keys are compared as
  values of \<open>pyval\<close>; that Python also takes \<^verbatim>\<open>True\<close> and \<^verbatim>\<open>1\<close> for equal keys is not
  represented.
\<close>

datatype call_args = NoArgs | Positional pyval | Keyword pyval

text \<open>
  The trace records, in the order they happen, the calls and reads of a run and the
  acquisition and release of \<^verbatim>\<open>VALIDATION_LOCK\<close>. A call that can raise is recorded
  when it ends, with its outcome; \<open>GetSchema\<close> and \<open>GetValidator\<close> are recorded when
  the cached function is entered, before anything it runs.
\<close>

datatype event =
    Upgrade addr "exn + addr"
  | ReadModelType "exn + pyval"
  | ReadSplit "exn + (string \<times> pyval) list"
  | GetSplitter "(string \<times> pyval) list" "exn option"
  | SplitterValidate addr "exn option"
  | LockAcquire
  | LockRelease
  | GetSchema call_args
  | Provider string "exn option"
  | GetValidator
  | Extend nat
  | Validate addr pyval validator_cls "exn option"
  | Check check addr "exn option"

text \<open>
  The state of the process: the object store, the trace, the two \<^verbatim>\<open>lru_cache\<close>s
  (oldest entry first) and the number of validator classes built so far.
\<close>

record world =
  objects :: store
  trace :: "event list"
  schema_cache :: "(call_args \<times> pyval) list"
  validator_cache :: "(unit \<times> validator_cls) list"
  classes_built :: nat

definition log :: "event \<Rightarrow> world \<Rightarrow> world" where
  "log e w = w\<lparr>trace := trace w @ [e]\<rparr>"

definition raised :: "exn + 'a \<Rightarrow> exn option" where
  "raised r = (case r of Inl e \<Rightarrow> Some e | Inr _ \<Rightarrow> None)"

subsection \<open>\<^verbatim>\<open>functools.lru_cache\<close>\<close>

text \<open>A hit moves the entry to the most recently used end.\<close>

definition lru_touch :: "'k \<Rightarrow> 'v \<Rightarrow> ('k \<times> 'v) list \<Rightarrow> ('k \<times> 'v) list" where
  "lru_touch k v c = filter (\<lambda>(k', _). k' \<noteq> k) c @ [(k, v)]"

text \<open>
  After a miss the result is stored; a full cache drops its oldest entry first. (The
  key can be present already only if the wrapped function stored it meanwhile.)
\<close>

definition lru_add :: "nat \<Rightarrow> 'k \<Rightarrow> 'v \<Rightarrow> ('k \<times> 'v) list \<Rightarrow> ('k \<times> 'v) list" where
  "lru_add maxsize k v c =
     (if map_of c k \<noteq> None then c
      else if maxsize \<le> length c then tl c @ [(k, v)]
      else c @ [(k, v)])"


section \<open>The schema assembler: \<^verbatim>\<open>get_schema\<close>\<close>

text \<open>
  The entries of a dictionary display are evaluated left to right; the first call that
  raises ends the evaluation. Each entry is the key and the outcome of the call that
  computes its value.
\<close>

fun eval_entries ::
  "(string \<times> (exn + pyval)) list \<Rightarrow> world \<Rightarrow> (exn + (string \<times> pyval) list) \<times> world" where
  "eval_entries [] w = (Inr [], w)"
| "eval_entries ((k, call) # rest) w =
     (case call of
        Inl e \<Rightarrow> (Inl e, log (Provider k (Some e)) w)
      | Inr v \<Rightarrow>
          (case eval_entries rest (log (Provider k None) w) of
             (Inl e, w') \<Rightarrow> (Inl e, w')
           | (Inr kvs, w') \<Rightarrow> (Inr ((k, v) # kvs), w')))"

text \<open>The body of \<^verbatim>\<open>get_schema\<close>, without its cache.\<close>

definition get_schema_wrapped :: "env \<Rightarrow> pyval \<Rightarrow> world \<Rightarrow> (exn + pyval) \<times> world" where
  "get_schema_wrapped env model_type w =
     (case eval_entries
        [(MODEL_TYPE, get_model_type_jsonschema env),
         (INPUT_FEATURES, get_input_feature_jsonschema env),
         (OUTPUT_FEATURES, get_output_feature_jsonschema env),
         (COMBINER, get_combiner_jsonschema env),
         (TRAINER, get_trainer_jsonschema env model_type),
         (PREPROCESSING, get_preprocessing_jsonschema env),
         (HYPEROPT, get_hyperopt_jsonschema env),
         (DEFAULTS, get_defaults_jsonschema env)] w of
        (Inl e, w') \<Rightarrow> (Inl e, w')
      | (Inr properties, w') \<Rightarrow>
          (Inr (dict_display
             [(''type'', PStr ''object''),
              (''properties'', dict_display properties),
              (''definitions'', dict_display []),
              (''required'', PList [PStr INPUT_FEATURES, PStr OUTPUT_FEATURES])]),
           w'))"

text \<open>The parameter \<^verbatim>\<open>model_type\<close> of a call: its default is \<^verbatim>\<open>MODEL_ECD\<close>.\<close>

fun bound_model_type :: "env \<Rightarrow> call_args \<Rightarrow> pyval" where
  "bound_model_type env NoArgs = PStr (MODEL_ECD env)"
| "bound_model_type env (Positional v) = v"
| "bound_model_type env (Keyword v) = v"

fun hashable_args :: "call_args \<Rightarrow> bool" where
  "hashable_args NoArgs = True"
| "hashable_args (Positional v) = hashable v"
| "hashable_args (Keyword v) = hashable v"

text \<open>
  \<^verbatim>\<open>@lru_cache(maxsize=2) def get_schema(model_type=MODEL_ECD)\<close>: the key is hashed
  first; a hit returns the stored schema; a miss runs the body and stores what it
  returns. An exception of the body is not stored.
\<close>

definition get_schema :: "env \<Rightarrow> call_args \<Rightarrow> world \<Rightarrow> (exn + pyval) \<times> world" where
  "get_schema env args w0 =
     (let w = log (GetSchema args) w0 in
      if \<not> hashable_args args then (Inl TypeError, w)
      else
        (case map_of (schema_cache w) args of
           Some schema \<Rightarrow> (Inr schema, w\<lparr>schema_cache := lru_touch args schema (schema_cache w)\<rparr>)
         | None \<Rightarrow>
             (case get_schema_wrapped env (bound_model_type env args) w of
                (Inl e, w') \<Rightarrow> (Inl e, w')
              | (Inr schema, w') \<Rightarrow>
                  (Inr schema, w'\<lparr>schema_cache := lru_add 2 args schema (schema_cache w')\<rparr>))))"

section \<open>The type-checker extension: \<^verbatim>\<open>get_validator\<close>\<close>

definition isinstance_list :: "pyval \<Rightarrow> bool" where
  "isinstance_list v = (case v of PList _ \<Rightarrow> True | _ \<Rightarrow> False)"

definition isinstance_tuple :: "pyval \<Rightarrow> bool" where
  "isinstance_tuple v = (case v of PTuple _ \<Rightarrow> True | _ \<Rightarrow> False)"

definition custom_is_array :: "'c \<Rightarrow> pyval \<Rightarrow> bool" where
  "custom_is_array checker instance = (isinstance_list instance \<or> isinstance_tuple instance)"

text \<open>
  The three operations of \<^verbatim>\<open>jsonschema\<close> the function uses.
  \<^verbatim>\<open>TypeChecker.redefine(type, fn)\<close> returns a checker that differs at one name; the
  library calls \<^verbatim>\<open>fn(checker, instance)\<close>, here with the checker applied at once.
  \<^verbatim>\<open>TypeChecker.is_type(instance, type)\<close> applies the predicate of a name and raises
  for a name the checker does not know. \<^verbatim>\<open>extend(validator, type_checker=...)\<close> makes a
  new class at every call.
\<close>

definition redefine :: "type_checker \<Rightarrow> string \<Rightarrow> (type_checker \<Rightarrow> pyval \<Rightarrow> bool) \<Rightarrow> type_checker" where
  "redefine tc name fn = tc(name \<mapsto> fn tc)"

definition is_type :: "type_checker \<Rightarrow> pyval \<Rightarrow> string \<Rightarrow> exn + bool" where
  "is_type tc instance name =
     (case tc name of None \<Rightarrow> Inl (Raised ''UndefinedTypeCheck'') | Some fn \<Rightarrow> Inr (fn instance))"

definition extend :: "type_checker \<Rightarrow> world \<Rightarrow> validator_cls \<times> world" where
  "extend type_checker w =
     (\<lparr>cls_id = classes_built w, TYPE_CHECKER = type_checker\<rparr>,
      log (Extend (classes_built w)) (w\<lparr>classes_built := Suc (classes_built w)\<rparr>))"

text \<open>The body of \<^verbatim>\<open>get_validator\<close>, without its cache.\<close>

definition get_validator_wrapped :: "env \<Rightarrow> world \<Rightarrow> validator_cls \<times> world" where
  "get_validator_wrapped env w =
     (let type_checker = redefine (Draft7Validator_TYPE_CHECKER env) ''array'' custom_is_array
      in extend type_checker w)"

text \<open>
  \<^verbatim>\<open>@lru_cache(maxsize=2) def get_validator()\<close>: the only key is the empty one. This is
  the call as one thread makes it while no other thread runs: lookup, body and store
  follow one another. The steps of the call, between which other threads can run, are
  \<open>get_validator_step\<close> in the section on threads; lemma \<open>get_validator_alone\<close> shows that
  the three steps taken in a row make this call.
\<close>

definition get_validator :: "env \<Rightarrow> world \<Rightarrow> validator_cls \<times> world" where
  "get_validator env w0 =
     (let w = log GetValidator w0 in
      case map_of (validator_cache w) () of
        Some cls \<Rightarrow> (cls, w\<lparr>validator_cache := lru_touch () cls (validator_cache w)\<rparr>)
      | None \<Rightarrow>
          (case get_validator_wrapped env w of
             (cls, w') \<Rightarrow> (cls, w'\<lparr>validator_cache := lru_add 2 () cls (validator_cache w')\<rparr>)))"

section \<open>The validation orchestrator: \<^verbatim>\<open>validate_config\<close>\<close>

text \<open>
  \<^verbatim>\<open>updated_config.get(PREPROCESSING, {}).get(SPLIT, {})\<close>, unpacked by \<^verbatim>\<open>**\<close>.
\<close>

definition split_kwargs :: "pyval \<Rightarrow> exn + (string \<times> pyval) list" where
  "split_kwargs updated_config =
     (case py_get updated_config PREPROCESSING (PDict []) of
        Inl e \<Rightarrow> Inl e
      | Inr preprocessing \<Rightarrow>
          (case py_get preprocessing SPLIT (PDict []) of
             Inl e \<Rightarrow> Inl e
           | Inr split \<Rightarrow> unpack_kwargs split))"

text \<open>
  \<^verbatim>\<open>with VALIDATION_LOCK:\<close> acquires the lock, runs the body and releases the lock,
  whether the body returns or raises. The lock is free when the call starts: waiting
  for another thread is not part of this sequential model.
\<close>

definition with_VALIDATION_LOCK :: "(world \<Rightarrow> 'a \<times> world) \<Rightarrow> world \<Rightarrow> 'a \<times> world" where
  "with_VALIDATION_LOCK body w =
     (case body (log LockAcquire w) of (r, w') \<Rightarrow> (r, log LockRelease w'))"

text \<open>
  The statement under the lock,
  \<^verbatim>\<open>validate(instance=updated_config, schema=get_schema(model_type=model_type), cls=get_validator())\<close>:
  the arguments are evaluated left to right, then \<^verbatim>\<open>validate\<close> is called.
\<close>

definition locked_statement :: "env \<Rightarrow> addr \<Rightarrow> pyval \<Rightarrow> world \<Rightarrow> (exn + unit) \<times> world" where
  "locked_statement env updated_config model_type w =
     (case get_schema env (Keyword model_type) w of
        (Inl e, w1) \<Rightarrow> (Inl e, w1)
      | (Inr schema, w1) \<Rightarrow>
          (case get_validator env w1 of
             (cls, w2) \<Rightarrow>
               (case validate env updated_config schema cls (objects w2) of
                  (r, s) \<Rightarrow>
                    (r, log (Validate updated_config schema cls (raised r)) (w2\<lparr>objects := s\<rparr>)))))"

text \<open>The additional checks, in the order of the source, lines 119 to 134.\<close>

definition additional_checks :: "check list" where
  "additional_checks =
     [check_validation_metrics_are_valid,
      check_feature_names_unique,
      check_tied_features_are_valid,
      check_dependent_features,
      check_training_runway,
      check_gbm_horovod_incompatibility,
      check_gbm_feature_types,
      check_ray_backend_in_memory_preprocessing,
      check_sequence_concat_combiner_requirements,
      check_tabtransformer_combiner_requirements,
      check_comparator_combiner_requirements,
      check_class_balance_preprocessing,
      check_sampling_exclusivity,
      check_hyperopt_search_space,
      check_hyperopt_metric_targets,
      check_gbm_single_output_feature]"

text \<open>
  A sequence of statements \<^verbatim>\<open>c(updated_config)\<close>: the first that raises ends the run;
  after the last the function returns \<^verbatim>\<open>None\<close>.
\<close>

fun run_checks :: "env \<Rightarrow> check list \<Rightarrow> addr \<Rightarrow> world \<Rightarrow> (exn + unit) \<times> world" where
  "run_checks env [] updated_config w = (Inr (), w)"
| "run_checks env (c # cs) updated_config w =
     (case auxiliary_validations env c updated_config (objects w) of
        (Inl e, s) \<Rightarrow> (Inl e, log (Check c updated_config (Some e)) (w\<lparr>objects := s\<rparr>))
      | (Inr _, s) \<Rightarrow>
          run_checks env cs updated_config (log (Check c updated_config None) (w\<lparr>objects := s\<rparr>)))"

text \<open>
  \<^verbatim>\<open>validate_config(config)\<close>, statement by statement: the upgrade (line 107), the
  read of the model type (line 108), the splitter and its validation (lines 110 and
  111), the statement under the lock (lines 113 to 116), the additional checks.
\<close>

definition validate_config :: "env \<Rightarrow> addr \<Rightarrow> world \<Rightarrow> (exn + unit) \<times> world" where
  "validate_config env config w0 =
     (case upgrade_config_dict_to_latest_version env config (objects w0) of
        (Inl e, s1) \<Rightarrow> (Inl e, log (Upgrade config (Inl e)) (w0\<lparr>objects := s1\<rparr>))
      | (Inr updated_config, s1) \<Rightarrow>
          (let w1 = log (Upgrade config (Inr updated_config)) (w0\<lparr>objects := s1\<rparr>) in
           case py_get (objects w1 updated_config) MODEL_TYPE (PStr (MODEL_ECD env)) of
             Inl e \<Rightarrow> (Inl e, log (ReadModelType (Inl e)) w1)
           | Inr model_type \<Rightarrow>
               (let w2 = log (ReadModelType (Inr model_type)) w1 in
                case split_kwargs (objects w2 updated_config) of
                  Inl e \<Rightarrow> (Inl e, log (ReadSplit (Inl e)) w2)
                | Inr kwargs \<Rightarrow>
                    (let w3 = log (ReadSplit (Inr kwargs)) w2 in
                     case get_splitter env kwargs of
                       Inl e \<Rightarrow> (Inl e, log (GetSplitter kwargs (Some e)) w3)
                     | Inr splitter \<Rightarrow>
                         (let w4 = log (GetSplitter kwargs None) w3 in
                          case splitter_validate splitter updated_config (objects w4) of
                            (Inl e, s5) \<Rightarrow>
                              (Inl e, log (SplitterValidate updated_config (Some e)) (w4\<lparr>objects := s5\<rparr>))
                          | (Inr _, s5) \<Rightarrow>
                              (let w5 = log (SplitterValidate updated_config None) (w4\<lparr>objects := s5\<rparr>) in
                               case with_VALIDATION_LOCK (locked_statement env updated_config model_type) w5 of
                                 (Inl e, w6) \<Rightarrow> (Inl e, w6)
                               | (Inr _, w6) \<Rightarrow> run_checks env additional_checks updated_config w6))))))"


section \<open>Observations on a run\<close>

text \<open>The events a call added to the trace: those of \<open>w'\<close> after those of \<open>w\<close>.\<close>

definition emitted :: "world \<Rightarrow> world \<Rightarrow> event list" where
  "emitted w w' = drop (length (trace w)) (trace w')"

text \<open>The stage of the pipeline an event belongs to.\<close>

datatype stage =
    Upgrading
  | Discriminator
  | SplitValidation
  | Acquire
  | SchemaAcquisition
  | ValidatorAcquisition
  | Structural
  | Release
  | Semantic

fun kind :: "event \<Rightarrow> stage" where
  "kind (Upgrade a r) = Upgrading"
| "kind (ReadModelType r) = Discriminator"
| "kind (ReadSplit r) = SplitValidation"
| "kind (GetSplitter k r) = SplitValidation"
| "kind (SplitterValidate a r) = SplitValidation"
| "kind LockAcquire = Acquire"
| "kind LockRelease = Release"
| "kind (GetSchema a) = SchemaAcquisition"
| "kind (Provider k r) = SchemaAcquisition"
| "kind GetValidator = ValidatorAcquisition"
| "kind (Extend n) = ValidatorAcquisition"
| "kind (Validate a s v r) = Structural"
| "kind (Check c a r) = Semantic"

text \<open>The event belongs to one of the listed stages.\<close>

fun in_stages :: "stage list \<Rightarrow> event \<Rightarrow> bool" where
  "in_stages stages e = (kind e \<in> set stages)"

text \<open>The semantic checks of a trace, in order: the check, its argument, its outcome.\<close>

fun checks_of :: "event list \<Rightarrow> (check \<times> addr \<times> exn option) list" where
  "checks_of [] = []"
| "checks_of (Check c a r # es) = (c, a, r) # checks_of es"
| "checks_of (e # es) = checks_of es"

text \<open>
  \<open>preceded P Q es\<close>: read from its start, the trace shows no \<open>Q\<close> event until it has
  shown a \<open>P\<close> event. So every \<open>Q\<close> event of the trace comes after a \<open>P\<close> event.
\<close>

fun preceded :: "(event \<Rightarrow> bool) \<Rightarrow> (event \<Rightarrow> bool) \<Rightarrow> event list \<Rightarrow> bool" where
  "preceded P Q [] = True"
| "preceded P Q (e # es) = (\<not> Q e \<and> (P e \<or> preceded P Q es))"

text \<open>
  The events that happen while the lock is held, those that happen while it is free
  (the acquisition and the release themselves are in neither list), and whether the
  lock is held at the end of a trace. The flag says whether the lock is held at the
  start.
\<close>

fun under_lock :: "bool \<Rightarrow> event list \<Rightarrow> event list" where
  "under_lock held [] = []"
| "under_lock held (LockAcquire # es) = under_lock True es"
| "under_lock held (LockRelease # es) = under_lock False es"
| "under_lock held (e # es) = (if held then e # under_lock held es else under_lock held es)"

fun outside_lock :: "bool \<Rightarrow> event list \<Rightarrow> event list" where
  "outside_lock held [] = []"
| "outside_lock held (LockAcquire # es) = outside_lock True es"
| "outside_lock held (LockRelease # es) = outside_lock False es"
| "outside_lock held (e # es) = (if held then outside_lock held es else e # outside_lock held es)"

fun lock_held :: "bool \<Rightarrow> event list \<Rightarrow> bool" where
  "lock_held held [] = held"
| "lock_held held (LockAcquire # es) = lock_held True es"
| "lock_held held (LockRelease # es) = lock_held False es"
| "lock_held held (e # es) = lock_held held es"

fun split_validated :: "event \<Rightarrow> bool" where
  "split_validated (SplitterValidate u None) = True"
| "split_validated e = False"

fun passed_structural :: "event \<Rightarrow> bool" where
  "passed_structural (Validate u s v None) = True"
| "passed_structural e = False"

text \<open>The validator classes handed to the structural validator, in order.\<close>

fun validators_of :: "event list \<Rightarrow> validator_cls list" where
  "validators_of [] = []"
| "validators_of (Validate u s v r # es) = v # validators_of es"
| "validators_of (e # es) = validators_of es"

text \<open>The document a collaborator was handed.\<close>

fun receives :: "event \<Rightarrow> addr option" where
  "receives (Upgrade a r) = Some a"
| "receives (SplitterValidate a r) = Some a"
| "receives (Validate a s v r) = Some a"
| "receives (Check c a r) = Some a"
| "receives e = None"

text \<open>
  Calls that do not overlap: any sequence of calls of the three functions of the
  module, each finished before the next begins. (Calls that overlap are the subject of
  the section on threads.)
  \<open>perform\<close> makes one call and returns the validator classes the call produced or
  used: the class a call of \<^verbatim>\<open>get_validator\<close> returned, the classes a run of
  \<^verbatim>\<open>validate_config\<close> handed to the structural validator.
\<close>

datatype api_call = GetSchemaCall call_args | GetValidatorCall | ValidateConfigCall addr

fun perform :: "env \<Rightarrow> api_call \<Rightarrow> world \<Rightarrow> validator_cls list \<times> world" where
  "perform env (GetSchemaCall args) w = ([], snd (get_schema env args w))"
| "perform env GetValidatorCall w = (case get_validator env w of (cls, w') \<Rightarrow> ([cls], w'))"
| "perform env (ValidateConfigCall config) w =
     (case validate_config env config w of (r, w') \<Rightarrow> (validators_of (emitted w w'), w'))"

fun process_calls :: "env \<Rightarrow> api_call list \<Rightarrow> world \<Rightarrow> validator_cls list \<times> world" where
  "process_calls env [] w = ([], w)"
| "process_calls env (c # cs) w =
     (case perform env c w of
        (clss, w1) \<Rightarrow>
          (case process_calls env cs w1 of (clss', w2) \<Rightarrow> (clss @ clss', w2)))"

section \<open>Threads\<close>

text \<open>
  Several threads can call into the module at once. \<^verbatim>\<open>functools.lru_cache\<close> holds no lock
  while the function it wraps runs: a call looks its key up; after a miss it calls the
  wrapped function, and other threads can run meanwhile; when the function has returned,
  the call stores the result unless the key has been stored in between, and returns
  its own result in either case. So a call of \<^verbatim>\<open>get_validator\<close> takes up to three steps.
  \<open>lru_call\<close> says where a call stands: before the lookup, after a miss, after the body
  with the class it built, or returned.
\<close>

datatype lru_call = Lookup | Missed | Computed validator_cls | Returned validator_cls

fun get_validator_step :: "env \<Rightarrow> lru_call \<Rightarrow> world \<Rightarrow> lru_call \<times> world" where
  "get_validator_step env Lookup w0 =
     (let w = log GetValidator w0 in
      case map_of (validator_cache w) () of
        Some cls \<Rightarrow> (Returned cls, w\<lparr>validator_cache := lru_touch () cls (validator_cache w)\<rparr>)
      | None \<Rightarrow> (Missed, w))"
| "get_validator_step env Missed w =
     (case get_validator_wrapped env w of (cls, w') \<Rightarrow> (Computed cls, w'))"
| "get_validator_step env (Computed cls) w =
     (Returned cls, w\<lparr>validator_cache := lru_add 2 () cls (validator_cache w)\<rparr>)"
| "get_validator_step env (Returned cls) w = (Returned cls, w)"

text \<open>
  A thread is a call of \<^verbatim>\<open>get_validator()\<close> from outside \<^verbatim>\<open>validate_config\<close>, or a run
  of \<^verbatim>\<open>validate_config(config)\<close> that stands before one of its statements: the upgrade
  (line 107), the read of the model type (line 108), \<^verbatim>\<open>get_splitter\<close> (line 110),
  \<^verbatim>\<open>splitter.validate\<close> (line 111), \<^verbatim>\<open>with VALIDATION_LOCK\<close> (line 113), and under the
  lock \<^verbatim>\<open>get_schema\<close>, \<^verbatim>\<open>get_validator\<close> and \<^verbatim>\<open>validate\<close> (line 116), then the release of
  the lock and the additional checks that remain (lines 119 to 134). Each constructor
  holds the local variables the rest of the run reads: \<^verbatim>\<open>updated_config\<close>, then
  \<^verbatim>\<open>model_type\<close> or the schema.
\<close>

datatype thread =
    Caller lru_call
  | AtUpgrade addr
  | AtModelType addr
  | AtGetSplitter addr pyval
  | AtSplitterValidate addr pyval splitter
  | AtLock addr pyval
  | AtGetSchema addr pyval
  | AtGetValidator addr pyval lru_call
  | AtRelease addr "exn + unit"
  | AtChecks addr "check list"
  | Finished "exn + unit"

text \<open>
  One step of a thread, given whether \<^verbatim>\<open>VALIDATION_LOCK\<close> is taken; it returns the
  thread, the lock and the state of the process after the step. The steps of a run of
  \<^verbatim>\<open>validate_config\<close> are the statements of \<open>validate_config\<close>, one call of a
  collaborator or one read each. A thread that stands before \<^verbatim>\<open>with VALIDATION_LOCK\<close>
  waits as long as the lock is taken. At \<open>AtGetValidator\<close> the call of
  \<^verbatim>\<open>get_validator\<close> takes its steps, and once it has returned \<^verbatim>\<open>validate\<close> is called.
  \<^verbatim>\<open>get_schema\<close> is taken as one step: the threads here call it only under the lock, and
  no step made outside the lock reads or writes the schema cache.
\<close>

fun step :: "env \<Rightarrow> thread \<Rightarrow> bool \<Rightarrow> world \<Rightarrow> thread \<times> bool \<times> world" where
  "step env (Caller c) locked w =
     (case get_validator_step env c w of (c', w') \<Rightarrow> (Caller c', locked, w'))"
| "step env (AtUpgrade config) locked w =
     (case upgrade_config_dict_to_latest_version env config (objects w) of
        (Inl e, s) \<Rightarrow> (Finished (Inl e), locked, log (Upgrade config (Inl e)) (w\<lparr>objects := s\<rparr>))
      | (Inr updated_config, s) \<Rightarrow>
          (AtModelType updated_config, locked,
           log (Upgrade config (Inr updated_config)) (w\<lparr>objects := s\<rparr>)))"
| "step env (AtModelType updated_config) locked w =
     (case py_get (objects w updated_config) MODEL_TYPE (PStr (MODEL_ECD env)) of
        Inl e \<Rightarrow> (Finished (Inl e), locked, log (ReadModelType (Inl e)) w)
      | Inr model_type \<Rightarrow>
          (AtGetSplitter updated_config model_type, locked, log (ReadModelType (Inr model_type)) w))"
| "step env (AtGetSplitter updated_config model_type) locked w =
     (case split_kwargs (objects w updated_config) of
        Inl e \<Rightarrow> (Finished (Inl e), locked, log (ReadSplit (Inl e)) w)
      | Inr kwargs \<Rightarrow>
          (let w3 = log (ReadSplit (Inr kwargs)) w in
           case get_splitter env kwargs of
             Inl e \<Rightarrow> (Finished (Inl e), locked, log (GetSplitter kwargs (Some e)) w3)
           | Inr splitter \<Rightarrow>
               (AtSplitterValidate updated_config model_type splitter, locked,
                log (GetSplitter kwargs None) w3)))"
| "step env (AtSplitterValidate updated_config model_type splitter) locked w =
     (case splitter_validate splitter updated_config (objects w) of
        (Inl e, s) \<Rightarrow>
          (Finished (Inl e), locked, log (SplitterValidate updated_config (Some e)) (w\<lparr>objects := s\<rparr>))
      | (Inr _, s) \<Rightarrow>
          (AtLock updated_config model_type, locked,
           log (SplitterValidate updated_config None) (w\<lparr>objects := s\<rparr>)))"
| "step env (AtLock updated_config model_type) locked w =
     (if locked then (AtLock updated_config model_type, locked, w)
      else (AtGetSchema updated_config model_type, True, log LockAcquire w))"
| "step env (AtGetSchema updated_config model_type) locked w =
     (case get_schema env (Keyword model_type) w of
        (Inl e, w1) \<Rightarrow> (AtRelease updated_config (Inl e), locked, w1)
      | (Inr schema, w1) \<Rightarrow> (AtGetValidator updated_config schema Lookup, locked, w1))"
| "step env (AtGetValidator updated_config schema (Returned cls)) locked w =
     (case validate env updated_config schema cls (objects w) of
        (r, s) \<Rightarrow>
          (AtRelease updated_config r, locked,
           log (Validate updated_config schema cls (raised r)) (w\<lparr>objects := s\<rparr>)))"
| "step env (AtGetValidator updated_config schema c) locked w =
     (case get_validator_step env c w of
        (c', w') \<Rightarrow> (AtGetValidator updated_config schema c', locked, w'))"
| "step env (AtRelease updated_config r) locked w =
     (case r of
        Inl e \<Rightarrow> (Finished (Inl e), False, log LockRelease w)
      | Inr _ \<Rightarrow> (AtChecks updated_config additional_checks, False, log LockRelease w))"
| "step env (AtChecks updated_config []) locked w = (Finished (Inr ()), locked, w)"
| "step env (AtChecks updated_config (c # cs)) locked w =
     (case auxiliary_validations env c updated_config (objects w) of
        (Inl e, s) \<Rightarrow>
          (Finished (Inl e), locked, log (Check c updated_config (Some e)) (w\<lparr>objects := s\<rparr>))
      | (Inr _, s) \<Rightarrow>
          (AtChecks updated_config cs, locked, log (Check c updated_config None) (w\<lparr>objects := s\<rparr>)))"
| "step env (Finished r) locked w = (Finished r, locked, w)"

text \<open>
  The threads of a process, the lock and the state. A schedule lists the indexes of the
  threads in the order in which they take their steps; an index beyond the threads is
  skipped. Any interleaving of the steps is some schedule.
\<close>

type_synonym system = "thread list \<times> bool \<times> world"

fun schedule_step :: "env \<Rightarrow> nat \<Rightarrow> system \<Rightarrow> system" where
  "schedule_step env i (ts, locked, w) =
     (if i < length ts
      then (case step env (ts ! i) locked w of (t', locked', w') \<Rightarrow> (ts[i := t'], locked', w'))
      else (ts, locked, w))"

fun run :: "env \<Rightarrow> nat list \<Rightarrow> system \<Rightarrow> system" where
  "run env [] s = s"
| "run env (i # sched) s = run env sched (schedule_step env i s)"

text \<open>
  A thread that has not started; a thread that is a run of \<^verbatim>\<open>validate_config\<close>; the
  classes the calls of \<^verbatim>\<open>get_validator\<close> made from outside \<^verbatim>\<open>validate_config\<close> have
  returned.
\<close>

fun fresh :: "thread \<Rightarrow> bool" where
  "fresh (Caller Lookup) = True"
| "fresh (AtUpgrade config) = True"
| "fresh t = False"

fun validating :: "thread \<Rightarrow> bool" where
  "validating (Caller c) = False"
| "validating t = True"

fun classes_returned :: "thread list \<Rightarrow> validator_cls list" where
  "classes_returned [] = []"
| "classes_returned (Caller (Returned cls) # ts) = cls # classes_returned ts"
| "classes_returned (t # ts) = classes_returned ts"

subsection \<open>Invariants of a run of threads\<close>

text \<open>
  Once the cache holds a class: no call is between its miss and its store, every call
  that has returned has returned the cached class, and so has every class handed to the
  structural validator since the trace had length \<open>n\<close>; \<open>b\<close> classes have been built.
\<close>

fun lru_settled :: "validator_cls \<Rightarrow> lru_call \<Rightarrow> bool" where
  "lru_settled cls Lookup = True"
| "lru_settled cls Missed = False"
| "lru_settled cls (Computed c) = False"
| "lru_settled cls (Returned c) = (c = cls)"

fun settled :: "validator_cls \<Rightarrow> thread \<Rightarrow> bool" where
  "settled cls (Caller c) = lru_settled cls c"
| "settled cls (AtGetValidator u s c) = lru_settled cls c"
| "settled cls t = True"

definition warm :: "validator_cls \<Rightarrow> nat \<Rightarrow> nat \<Rightarrow> system \<Rightarrow> bool" where
  "warm cls n b s =
     (case s of (ts, locked, w) \<Rightarrow>
        validator_cache w = [((), cls)] \<and> classes_built w = b
        \<and> (\<forall>t\<in>set ts. settled cls t)
        \<and> n \<le> length (trace w)
        \<and> (\<forall>c\<in>set (validators_of (drop n (trace w))). c = cls))"

text \<open>
  While the cache is empty and every thread is a run of \<^verbatim>\<open>validate_config\<close>: the lock is
  taken exactly when a thread is inside the \<^verbatim>\<open>with\<close> block, at most one thread is inside,
  no class has been handed to the structural validator, and the one class built beyond
  \<open>b\<close>, if any, is held by the thread inside, which has not stored it yet.
\<close>

fun inside :: "thread \<Rightarrow> bool" where
  "inside (AtGetSchema u m) = True"
| "inside (AtGetValidator u s c) = True"
| "inside (AtRelease u r) = True"
| "inside t = False"

fun computed :: "thread \<Rightarrow> bool" where
  "computed (AtGetValidator u s (Computed c)) = True"
| "computed t = False"

fun holds_class :: "thread \<Rightarrow> bool" where
  "holds_class (AtGetValidator u s (Returned c)) = True"
| "holds_class t = False"

definition cold :: "nat \<Rightarrow> nat \<Rightarrow> system \<Rightarrow> bool" where
  "cold n b s =
     (case s of (ts, locked, w) \<Rightarrow>
        validator_cache w = []
        \<and> n \<le> length (trace w) \<and> validators_of (drop n (trace w)) = []
        \<and> (\<forall>t\<in>set ts. validating t \<and> \<not> holds_class t)
        \<and> (locked \<longleftrightarrow> (\<exists>i<length ts. inside (ts ! i)))
        \<and> (\<forall>i<length ts. \<forall>j<length ts. inside (ts ! i) \<longrightarrow> inside (ts ! j) \<longrightarrow> i = j)
        \<and> classes_built w = b + (if \<exists>i<length ts. computed (ts ! i) then 1 else 0))"

text \<open>
  Whether the call of \<^verbatim>\<open>get_validator\<close> that a thread makes may still run the body.
\<close>

fun may_build :: "thread \<Rightarrow> nat" where
  "may_build (Caller (Computed c)) = 0"
| "may_build (Caller (Returned c)) = 0"
| "may_build (AtGetValidator u s (Computed c)) = 0"
| "may_build (AtGetValidator u s (Returned c)) = 0"
| "may_build (AtRelease u r) = 0"
| "may_build (AtChecks u cs) = 0"
| "may_build (Finished r) = 0"
| "may_build t = 1"

section \<open>Cache invariants and collaborator contracts\<close>

text \<open>
  Every schema in the cache is what the body of \<^verbatim>\<open>get_schema\<close> returns for its key.
  The empty cache of a fresh process satisfies this, and \<^verbatim>\<open>get_schema\<close> and
  \<^verbatim>\<open>validate_config\<close> keep it (lemmas \<open>schema_cache_sound_start\<close>,
  \<open>schema_cache_sound_get_schema\<close> and \<open>schema_cache_sound_validate_config\<close>), so it
  holds after any sequence of calls in a process that started with empty caches (lemma
  \<open>caches_sound_reachable\<close>).
\<close>

definition schema_cache_sound :: "env \<Rightarrow> world \<Rightarrow> bool" where
  "schema_cache_sound env w =
     (\<forall>(args, schema)\<in>set (schema_cache w).
        fst (get_schema_wrapped env (bound_model_type env args) w) = Inr schema)"

text \<open>
  Every validator class in the cache was built by the body of \<^verbatim>\<open>get_validator\<close>:
  its type checker is the redefined one. The empty cache of a fresh process satisfies
  this, and \<^verbatim>\<open>get_validator\<close> and \<^verbatim>\<open>validate_config\<close> keep it (lemmas
  \<open>validator_cache_sound_start\<close>, \<open>get_validator_sound\<close>,
  \<open>validator_cache_sound_validate_config\<close> and \<open>caches_sound_reachable\<close>).
\<close>

definition validator_cache_sound :: "env \<Rightarrow> world \<Rightarrow> bool" where
  "validator_cache_sound env w =
     (\<forall>(k, cls)\<in>set (validator_cache w).
        TYPE_CHECKER cls = redefine (Draft7Validator_TYPE_CHECKER env) ''array'' custom_is_array)"

text \<open>None of the eight fragment providers raises for this model type.\<close>

definition providers_return :: "env \<Rightarrow> pyval \<Rightarrow> bool" where
  "providers_return env model_type =
     (raised (get_model_type_jsonschema env) = None \<and>
      raised (get_input_feature_jsonschema env) = None \<and>
      raised (get_output_feature_jsonschema env) = None \<and>
      raised (get_combiner_jsonschema env) = None \<and>
      raised (get_trainer_jsonschema env model_type) = None \<and>
      raised (get_preprocessing_jsonschema env) = None \<and>
      raised (get_hyperopt_jsonschema env) = None \<and>
      raised (get_defaults_jsonschema env) = None)"

text \<open>
  Modelled from the spec: the trainer fragment provider
  (\<^verbatim>\<open>ludwig.schema.trainer.get_trainer_jsonschema\<close>) is not among the sources, and
  \<^verbatim>\<open>get_schema\<close> itself never inspects the model type. The specification: the
  discriminator "must be one of the registered model types or assembly fails with an
  \<^verbatim>\<open>UnknownModelType\<close> error"; dispatch is "a registry: a mapping from discriminator value
  to a fragment-provider function, with an explicit unknown discriminator error path
  rather than silent fallback". The registry maps each registered model type to its
  trainer fragment.
\<close>

definition registered_trainer_jsonschema :: "(string \<times> pyval) list \<Rightarrow> pyval \<Rightarrow> exn + pyval" where
  "registered_trainer_jsonschema registry model_type =
     (case model_type of
        PStr m \<Rightarrow>
          (case map_of registry m of
             Some fragment \<Rightarrow> Inr fragment
           | None \<Rightarrow> Inl (UnknownModelType model_type))
      | _ \<Rightarrow> Inl (UnknownModelType model_type))"

text \<open>
  Modelled from the spec: the upgrader
  (\<^verbatim>\<open>ludwig.utils.backward_compatibility.upgrade_config_dict_to_latest_version\<close>) is not
  among the sources. The specification: it "never mutates the caller's original
  document in place -- returns a new value". So the cell of its argument is left as it
  was, and the object it returns is another one.
\<close>

definition returns_new_value :: "(addr \<Rightarrow> store \<Rightarrow> (exn + addr) \<times> store) \<Rightarrow> bool" where
  "returns_new_value upgrade =
     (\<forall>config s. case upgrade config s of (r, s') \<Rightarrow> s' config = s config \<and> r \<noteq> Inr config)"

text \<open>
  A collaborator that is handed a document may change that document, and nothing else
  in the store.
\<close>

definition changes_only_argument :: "(addr \<Rightarrow> store \<Rightarrow> (exn + unit) \<times> store) \<Rightarrow> bool" where
  "changes_only_argument f = (\<forall>u s a. a \<noteq> u \<longrightarrow> snd (f u s) a = s a)"

definition collaborators_confined :: "env \<Rightarrow> bool" where
  "collaborators_confined env =
     ((\<forall>kwargs sp. get_splitter env kwargs = Inr sp \<longrightarrow> changes_only_argument (splitter_validate sp))
      \<and> (\<forall>schema cls. changes_only_argument (\<lambda>u. validate env u schema cls))
      \<and> (\<forall>c. changes_only_argument (auxiliary_validations env c)))"

section \<open>An example environment\<close>

text \<open>
  Concrete collaborators, small enough to run by hand. The upgrader copies the
  document into the next cell. The splitter factory knows the strategies
  \<^verbatim>\<open>random\<close> (the default; its validation passes) and \<^verbatim>\<open>stratify\<close> (its validation
  raises). The structural validator checks the \<^verbatim>\<open>required\<close> keys of the schema. The
  check \<^verbatim>\<open>check_feature_names_unique\<close> raises when two features share a name; the
  other checks pass.
\<close>

definition example_upgrade :: "addr \<Rightarrow> store \<Rightarrow> (exn + addr) \<times> store" where
  "example_upgrade config s = (Inr (Suc config), s(Suc config := s config))"

definition example_get_splitter :: "(string \<times> pyval) list \<Rightarrow> exn + splitter" where
  "example_get_splitter kwargs =
     (case map_of kwargs ''type'' of
        None \<Rightarrow> Inr (Splitter (\<lambda>u s. (Inr (), s)))
      | Some t \<Rightarrow>
          if t = PStr ''random'' then Inr (Splitter (\<lambda>u s. (Inr (), s)))
          else if t = PStr ''stratify'' then Inr (Splitter (\<lambda>u s. (Inl (Raised ''ValueError''), s)))
          else Inl (Raised ''ValueError''))"

definition example_validate :: "addr \<Rightarrow> pyval \<Rightarrow> validator_cls \<Rightarrow> store \<Rightarrow> (exn + unit) \<times> store" where
  "example_validate u schema cls s =
     (case py_get schema ''required'' (PList []) of
        Inr (PList req) \<Rightarrow>
          (if list_all (\<lambda>k. k \<in> PStr ` set (dict_keys (s u))) req then (Inr (), s)
           else (Inl (Raised ''ValidationError''), s))
      | _ \<Rightarrow> (Inr (), s))"

definition feature_names :: "pyval \<Rightarrow> pyval list" where
  "feature_names doc =
     concat (map (\<lambda>key. case py_get doc key (PList []) of
                          Inr (PList fs) \<Rightarrow>
                            map (\<lambda>f. case py_get f ''name'' PNone of Inr n \<Rightarrow> n | Inl _ \<Rightarrow> PNone) fs
                        | _ \<Rightarrow> [])
       [INPUT_FEATURES, OUTPUT_FEATURES])"

definition example_check :: "check \<Rightarrow> addr \<Rightarrow> store \<Rightarrow> (exn + unit) \<times> store" where
  "example_check c u s =
     (if c = check_feature_names_unique \<and> \<not> distinct (feature_names (s u))
      then (Inl (Raised ''ConfigValidationError''), s) else (Inr (), s))"

definition example_env :: env where
  "example_env =
     \<lparr>MODEL_ECD = ''ecd'',
      upgrade_config_dict_to_latest_version = example_upgrade,
      get_splitter = example_get_splitter,
      validate = example_validate,
      get_model_type_jsonschema = Inr (PDict [(''type'', PStr ''string'')]),
      get_input_feature_jsonschema = Inr (PDict [(''type'', PStr ''array'')]),
      get_output_feature_jsonschema = Inr (PDict [(''type'', PStr ''array'')]),
      get_combiner_jsonschema = Inr (PDict [(''type'', PStr ''object'')]),
      get_trainer_jsonschema = (\<lambda>model_type. Inr (PDict [(''type'', PStr ''object'')])),
      get_preprocessing_jsonschema = Inr (PDict [(''type'', PStr ''object'')]),
      get_hyperopt_jsonschema = Inr (PDict [(''type'', PStr ''object'')]),
      get_defaults_jsonschema = Inr (PDict [(''type'', PStr ''object'')]),
      auxiliary_validations = example_check,
      Draft7Validator_TYPE_CHECKER = [''array'' \<mapsto> isinstance_list]\<rparr>"

text \<open>The schema the example providers assemble, and the validator class built first.\<close>

definition example_properties :: pyval where
  "example_properties =
     PDict [(''model_type'', PDict [(''type'', PStr ''string'')]),
            (''input_features'', PDict [(''type'', PStr ''array'')]),
            (''output_features'', PDict [(''type'', PStr ''array'')]),
            (''combiner'', PDict [(''type'', PStr ''object'')]),
            (''trainer'', PDict [(''type'', PStr ''object'')]),
            (''preprocessing'', PDict [(''type'', PStr ''object'')]),
            (''hyperopt'', PDict [(''type'', PStr ''object'')]),
            (''defaults'', PDict [(''type'', PStr ''object'')])]"

definition example_schema :: pyval where
  "example_schema =
     PDict [(''type'', PStr ''object''),
            (''properties'', example_properties),
            (''definitions'', PDict []),
            (''required'', PList [PStr ''input_features'', PStr ''output_features''])]"

definition example_cls :: validator_cls where
  "example_cls =
     \<lparr>cls_id = 0,
      TYPE_CHECKER = redefine [''array'' \<mapsto> isinstance_list] ''array'' custom_is_array\<rparr>"

text \<open>A fresh process: the caller's document in cell 0, empty caches, no class built.\<close>

definition start_world :: "pyval \<Rightarrow> world" where
  "start_world doc =
     \<lparr>objects = (\<lambda>a. PNone)(0 := doc), trace = [], schema_cache = [], validator_cache = [],
      classes_built = 0\<rparr>"

definition feature :: "string \<Rightarrow> pyval" where
  "feature name = PDict [(''name'', PStr name)]"

text \<open>A document that passes every stage.\<close>

definition doc_valid :: pyval where
  "doc_valid = PDict [(''input_features'', PList [feature ''age'']),
                      (''output_features'', PList [feature ''income''])]"

text \<open>
  A document with a structural violation (\<^verbatim>\<open>output_features\<close> is missing) and a
  semantic violation (two features named \<^verbatim>\<open>age\<close>).
\<close>

definition doc_two_violations :: pyval where
  "doc_two_violations = PDict [(''input_features'', PList [feature ''age'', feature ''age''])]"

text \<open>A document with the semantic violation only.\<close>

definition doc_duplicate_names :: pyval where
  "doc_duplicate_names =
     PDict [(''input_features'', PList [feature ''age'', feature ''age'']),
            (''output_features'', PList [feature ''income''])]"

text \<open>A document whose split strategy does not validate.\<close>

definition doc_bad_split :: pyval where
  "doc_bad_split =
     PDict [(''input_features'', PList [feature ''age'']),
            (''output_features'', PList [feature ''income'']),
            (''preprocessing'', PDict [(''split'', PDict [(''type'', PStr ''stratify'')])])]"

text \<open>The registered model types of the example registry, with their trainer fragments.\<close>

definition example_registry :: "(string \<times> pyval) list" where
  "example_registry =
     [(''ecd'', PDict [(''type'', PStr ''object'')]),
      (''gbm'', PDict [(''type'', PStr ''object'')])]"

text \<open>
  The events of the example runs: the stages before the lock for a document without a
  split section, and the statement under the lock when the caches are empty, with the
  outcome of the structural validator.
\<close>

definition example_prefix :: "event list" where
  "example_prefix =
     [Upgrade 0 (Inr (Suc 0)), ReadModelType (Inr (PStr ''ecd'')), ReadSplit (Inr []),
      GetSplitter [] None, SplitterValidate (Suc 0) None]"

definition example_locked :: "exn option \<Rightarrow> event list" where
  "example_locked outcome =
     [LockAcquire, GetSchema (Keyword (PStr ''ecd'')),
      Provider ''model_type'' None, Provider ''input_features'' None,
      Provider ''output_features'' None, Provider ''combiner'' None,
      Provider ''trainer'' None, Provider ''preprocessing'' None,
      Provider ''hyperopt'' None, Provider ''defaults'' None,
      GetValidator, Extend 0,
      Validate (Suc 0) example_schema example_cls outcome,
      LockRelease]"

text \<open>The example environment with checks that overwrite the document they are given.\<close>

definition example_env_overwriting :: env where
  "example_env_overwriting =
     example_env\<lparr>auxiliary_validations := (\<lambda>c u s. (Inr (), s(u := PNone)))\<rparr>"

text \<open>
  The same, with an upgrader that returns the document it was given: it does not
  satisfy \<open>returns_new_value\<close>.
\<close>

definition example_env_aliasing :: env where
  "example_env_aliasing =
     example_env_overwriting\<lparr>upgrade_config_dict_to_latest_version := (\<lambda>config s. (Inr config, s))\<rparr>"

text \<open>The example environment with the trainer provider of the registry.\<close>

definition example_env_registry :: env where
  "example_env_registry =
     example_env\<lparr>get_trainer_jsonschema := registered_trainer_jsonschema example_registry\<rparr>"

text \<open>
  Two runs of \<^verbatim>\<open>validate_config\<close> on the document of the caller, whose steps
  alternate.
\<close>

definition example_threads :: "thread list" where
  "example_threads = [AtUpgrade 0, AtUpgrade 0]"

definition example_schedule :: "nat list" where
  "example_schedule = concat (replicate 36 [0, 1])"

text \<open>
  A call of \<^verbatim>\<open>get_validator\<close> that takes its three steps first, then a run of
  \<^verbatim>\<open>validate_config\<close> and a second call of \<^verbatim>\<open>get_validator\<close> whose steps alternate.
\<close>

definition example_threads_direct :: "thread list" where
  "example_threads_direct = [Caller Lookup, AtUpgrade 0, Caller Lookup]"

definition example_schedule_direct :: "nat list" where
  "example_schedule_direct = [0, 0, 0] @ concat (replicate 3 [1, 2]) @ replicate 26 1"

text \<open>
  Two calls of \<^verbatim>\<open>get_validator\<close> from outside \<^verbatim>\<open>validate_config\<close>.
\<close>

definition example_callers :: "thread list" where
  "example_callers = [Caller Lookup, Caller Lookup]"

lemmas example_defs =
  example_env_def example_upgrade_def example_get_splitter_def example_validate_def
  feature_names_def example_check_def example_properties_def example_schema_def example_cls_def
  start_world_def
  feature_def doc_valid_def example_prefix_def example_locked_def

lemmas key_defs =
  MODEL_TYPE_def INPUT_FEATURES_def OUTPUT_FEATURES_def COMBINER_def TRAINER_def
  PREPROCESSING_def HYPEROPT_def DEFAULTS_def SPLIT_def

lemmas run_defs =
  validate_config_def with_VALIDATION_LOCK_def locked_statement_def get_schema_def
  get_schema_wrapped_def get_validator_def get_validator_wrapped_def extend_def lru_add_def
  lru_touch_def split_kwargs_def log_def raised_def dict_display_def additional_checks_def
  Let_def

section \<open>Auxiliary lemmas\<close>

subsection \<open>What each function adds to the trace\<close>

lemma log_simps [simp]:
  "trace (log e w) = trace w @ [e]"
  "objects (log e w) = objects w"
  "schema_cache (log e w) = schema_cache w"
  "validator_cache (log e w) = validator_cache w"
  "classes_built (log e w) = classes_built w"
  by (simp_all add: log_def)

lemma eval_entries_effect:
  "eval_entries es w = (r, w') \<Longrightarrow>
   \<exists>ps. w' = w\<lparr>trace := trace w @ ps\<rparr> \<and> (\<forall>e\<in>set ps. kind e = SchemaAcquisition)"
proof (induction es arbitrary: w r w')
  case Nil
  then show ?case by (intro exI [of _ "[]"]) simp
next
  case (Cons a es)
  obtain k call where a: "a = (k, call)" by (cases a)
  show ?case
  proof (cases call)
    case (Inl e)
    with Cons.prems a have "w' = w\<lparr>trace := trace w @ [Provider k (Some e)]\<rparr>"
      by (simp add: log_def)
    then show ?thesis by (intro exI [of _ "[Provider k (Some e)]"]) simp
  next
    case (Inr v)
    obtain r1 w1 where rec: "eval_entries es (log (Provider k None) w) = (r1, w1)"
      by (cases "eval_entries es (log (Provider k None) w)")
    from Cons.IH [OF rec] obtain ps where
      ps: "w1 = (log (Provider k None) w)\<lparr>trace := trace (log (Provider k None) w) @ ps\<rparr>"
        "\<forall>e\<in>set ps. kind e = SchemaAcquisition" by blast
    from Cons.prems a Inr rec have "w' = w1" by (auto split: sum.splits)
    with ps have "w' = w\<lparr>trace := trace w @ Provider k None # ps\<rparr>"
      by (simp add: log_def)
    with ps(2) show ?thesis by (intro exI [of _ "Provider k None # ps"]) simp
  qed
qed

lemma get_schema_wrapped_effect:
  "get_schema_wrapped env m w = (r, w') \<Longrightarrow>
   \<exists>ps. w' = w\<lparr>trace := trace w @ ps\<rparr> \<and> (\<forall>e\<in>set ps. kind e = SchemaAcquisition)"
proof -
  assume a: "get_schema_wrapped env m w = (r, w')"
  let ?es = "[(MODEL_TYPE, get_model_type_jsonschema env),
         (INPUT_FEATURES, get_input_feature_jsonschema env),
         (OUTPUT_FEATURES, get_output_feature_jsonschema env),
         (COMBINER, get_combiner_jsonschema env),
         (TRAINER, get_trainer_jsonschema env m),
         (PREPROCESSING, get_preprocessing_jsonschema env),
         (HYPEROPT, get_hyperopt_jsonschema env),
         (DEFAULTS, get_defaults_jsonschema env)]"
  obtain r1 w1 where e: "eval_entries ?es w = (r1, w1)" by (cases "eval_entries ?es w")
  from a e have "w' = w1" unfolding get_schema_wrapped_def by (simp split: sum.splits)
  with eval_entries_effect [OF e] show ?thesis by simp
qed

lemma get_schema_effect:
  assumes "get_schema env a w = (r, w')"
  shows "\<exists>ps c. w' = w\<lparr>trace := trace w @ GetSchema a # ps, schema_cache := c\<rparr>
           \<and> (\<forall>e\<in>set ps. kind e = SchemaAcquisition)"
proof (cases "hashable_args a \<and> map_of (schema_cache w) a = None")
  case False
  with assms have "\<exists>c. w' = w\<lparr>trace := trace w @ [GetSchema a], schema_cache := c\<rparr>"
    by (auto simp: get_schema_def Let_def log_def split: if_splits option.splits
        intro: exI [of _ "schema_cache w"])
  then obtain c where "w' = w\<lparr>trace := trace w @ [GetSchema a], schema_cache := c\<rparr>" ..
  then show ?thesis by (intro exI [of _ "[]::event list"] exI [of _ c]) simp
next
  case True
  obtain r1 w1 where b: "get_schema_wrapped env (bound_model_type env a) (log (GetSchema a) w) = (r1, w1)"
    by (cases "get_schema_wrapped env (bound_model_type env a) (log (GetSchema a) w)")
  from get_schema_wrapped_effect [OF b] obtain ps where
    ps: "w1 = (log (GetSchema a) w)\<lparr>trace := trace (log (GetSchema a) w) @ ps\<rparr>"
      "\<forall>e\<in>set ps. kind e = SchemaAcquisition" by blast
  from assms True b have "w' = w1 \<or> (\<exists>c. w' = w1\<lparr>schema_cache := c\<rparr>)"
    by (auto simp: get_schema_def Let_def split: sum.splits)
  with ps(1) have "\<exists>c. w' = w\<lparr>trace := trace w @ GetSchema a # ps, schema_cache := c\<rparr>"
    by (auto simp: log_def intro: exI [of _ "schema_cache w"])
  then obtain c where "w' = w\<lparr>trace := trace w @ GetSchema a # ps, schema_cache := c\<rparr>" ..
  with ps(2) show ?thesis by (intro exI [of _ ps] exI [of _ c]) simp
qed

lemma get_validator_effect:
  assumes "get_validator env w = (v, w')"
  shows "\<exists>xs c n. w' = w\<lparr>trace := trace w @ GetValidator # xs, validator_cache := c, classes_built := n\<rparr>
           \<and> (\<forall>e\<in>set xs. kind e = ValidatorAcquisition)"
proof (cases "map_of (validator_cache w) ()")
  case None
  with assms have "w' = w\<lparr>trace := trace w @ GetValidator # [Extend (classes_built w)],
      validator_cache := lru_add 2 () v (validator_cache w), classes_built := Suc (classes_built w)\<rparr>"
    by (auto simp: get_validator_def get_validator_wrapped_def extend_def Let_def log_def)
  then show ?thesis
    by (intro exI [of _ "[Extend (classes_built w)]"] exI [of _ "lru_add 2 () v (validator_cache w)"]
        exI [of _ "Suc (classes_built w)"]) simp
next
  case (Some cls)
  with assms have "w' = w\<lparr>trace := trace w @ GetValidator # [],
      validator_cache := lru_touch () cls (validator_cache w), classes_built := classes_built w\<rparr>"
    by (auto simp: get_validator_def Let_def log_def)
  then show ?thesis
    by (intro exI [of _ "[]::event list"] exI [of _ "lru_touch () cls (validator_cache w)"] exI [of _ "classes_built w"]) simp
qed

lemma emittedI: "trace w' = trace w @ evs \<Longrightarrow> emitted w w' = evs"
  by (simp add: emitted_def)

lemma run_checks_effect:
  "run_checks env cs u w = (r, w') \<Longrightarrow>
   \<exists>k. trace w' = trace w @ map (\<lambda>c. Check c u None) (take k cs) @
           (case r of Inl e \<Rightarrow> [Check (cs ! k) u (Some e)] | Inr _ \<Rightarrow> [])
       \<and> (case r of Inl e \<Rightarrow> k < length cs | Inr _ \<Rightarrow> k = length cs)"
proof (induction cs arbitrary: w)
  case Nil
  then show ?case by auto
next
  case (Cons c cs)
  obtain r1 s1 where c1: "auxiliary_validations env c u (objects w) = (r1, s1)"
    by (cases "auxiliary_validations env c u (objects w)")
  show ?case
  proof (cases r1)
    case (Inl e)
    with Cons.prems c1 have "r = Inl e" "trace w' = trace w @ [Check c u (Some e)]"
      by auto
    then show ?thesis by (intro exI [of _ 0]) simp
  next
    case (Inr x)
    with Cons.prems c1
    have "run_checks env cs u (log (Check c u None) (w\<lparr>objects := s1\<rparr>)) = (r, w')"
      by simp
    from Cons.IH [OF this] obtain k where
      k: "trace w' = trace w @ [Check c u None] @ map (\<lambda>c. Check c u None) (take k cs) @
           (case r of Inl e \<Rightarrow> [Check (cs ! k) u (Some e)] | Inr _ \<Rightarrow> [])"
        "case r of Inl e \<Rightarrow> k < length cs | Inr _ \<Rightarrow> k = length cs"
      by auto
    then show ?thesis by (intro exI [of _ "Suc k"]) (auto split: sum.splits)
  qed
qed

lemma run_checks_caches:
  "validator_cache (snd (run_checks env cs u w)) = validator_cache w
   \<and> classes_built (snd (run_checks env cs u w)) = classes_built w
   \<and> schema_cache (snd (run_checks env cs u w)) = schema_cache w"
  by (induction cs arbitrary: w) (auto split: prod.splits sum.splits)

lemma locked_statement_effect:
  assumes "with_VALIDATION_LOCK (locked_statement env u m) w = (r, w')"
  shows "(\<exists>e ps w1. r = Inl e
            \<and> get_schema env (Keyword m) (log LockAcquire w) = (Inl e, w1)
            \<and> w' = log LockRelease w1
            \<and> trace w' = trace w @ [LockAcquire, GetSchema (Keyword m)] @ ps @ [LockRelease]
            \<and> (\<forall>x\<in>set ps. kind x = SchemaAcquisition))
       \<or> (\<exists>ps xs s v w1 w2.
              get_schema env (Keyword m) (log LockAcquire w) = (Inr s, w1)
            \<and> get_validator env w1 = (v, w2)
            \<and> trace w2 = trace w1 @ GetValidator # xs
            \<and> validator_cache w' = validator_cache w2
            \<and> classes_built w' = classes_built w2
            \<and> schema_cache w' = schema_cache w2
            \<and> trace w' = trace w @ [LockAcquire, GetSchema (Keyword m)] @ ps @
              GetValidator # xs @ [Validate u s v (raised r), LockRelease]
            \<and> (\<forall>x\<in>set ps. kind x = SchemaAcquisition)
            \<and> (\<forall>x\<in>set xs. kind x = ValidatorAcquisition))"
proof -
  obtain r1 w1 where g: "get_schema env (Keyword m) (log LockAcquire w) = (r1, w1)"
    by (cases "get_schema env (Keyword m) (log LockAcquire w)")
  from get_schema_effect [OF g] obtain ps where
    ps: "trace w1 = trace w @ [LockAcquire, GetSchema (Keyword m)] @ ps"
      "\<forall>x\<in>set ps. kind x = SchemaAcquisition"
    by auto
  show ?thesis
  proof (cases r1)
    case (Inl e)
    with assms g have "r = Inl e" "w' = log LockRelease w1"
      by (auto simp: with_VALIDATION_LOCK_def locked_statement_def)
    with ps g Inl show ?thesis by auto
  next
    case (Inr schema)
    obtain v w2 where gv: "get_validator env w1 = (v, w2)" by (cases "get_validator env w1")
    from get_validator_effect [OF gv] obtain xs where
      xs: "trace w2 = trace w1 @ GetValidator # xs" "\<forall>x\<in>set xs. kind x = ValidatorAcquisition"
      by auto
    obtain r3 s3 where va: "validate env u schema v (objects w2) = (r3, s3)"
      by (cases "validate env u schema v (objects w2)")
    from assms g Inr gv va
    have w': "r = r3" "w' = log LockRelease (log (Validate u schema v (raised r3)) (w2\<lparr>objects := s3\<rparr>))"
      by (auto simp: with_VALIDATION_LOCK_def locked_statement_def)
    with ps xs have "trace w' = trace w @ [LockAcquire, GetSchema (Keyword m)] @ ps @
              GetValidator # xs @ [Validate u schema v (raised r), LockRelease]"
      by simp
    moreover from w' have "validator_cache w' = validator_cache w2"
      "classes_built w' = classes_built w2" "schema_cache w' = schema_cache w2" by simp_all
    ultimately show ?thesis using ps(2) xs g [unfolded Inr] gv by blast
  qed
qed

text \<open>
  The runs of \<^verbatim>\<open>validate_config\<close>: the stage that raised, or the checks that ran, with
  the events of the run.
\<close>

lemma validate_config_run:
  assumes run: "validate_config env config w = (r, w')"
  obtains
    (upgrade_raises) e where
      "r = Inl e" "emitted w w' = [Upgrade config (Inl e)]"
      "schema_cache w' = schema_cache w" "validator_cache w' = validator_cache w"
      "classes_built w' = classes_built w"
  | (discriminator_raises) u s1 e where
      "upgrade_config_dict_to_latest_version env config (objects w) = (Inr u, s1)"
      "r = Inl e" "emitted w w' = [Upgrade config (Inr u), ReadModelType (Inl e)]"
      "schema_cache w' = schema_cache w" "validator_cache w' = validator_cache w"
      "classes_built w' = classes_built w"
  | (split_read_raises) u s1 m e where
      "upgrade_config_dict_to_latest_version env config (objects w) = (Inr u, s1)"
      "py_get (s1 u) MODEL_TYPE (PStr (MODEL_ECD env)) = Inr m"
      "r = Inl e"
      "emitted w w' = [Upgrade config (Inr u), ReadModelType (Inr m), ReadSplit (Inl e)]"
      "schema_cache w' = schema_cache w" "validator_cache w' = validator_cache w"
      "classes_built w' = classes_built w"
  | (get_splitter_raises) u s1 m k e where
      "upgrade_config_dict_to_latest_version env config (objects w) = (Inr u, s1)"
      "py_get (s1 u) MODEL_TYPE (PStr (MODEL_ECD env)) = Inr m"
      "split_kwargs (s1 u) = Inr k"
      "r = Inl e"
      "emitted w w' = [Upgrade config (Inr u), ReadModelType (Inr m), ReadSplit (Inr k),
         GetSplitter k (Some e)]"
      "schema_cache w' = schema_cache w" "validator_cache w' = validator_cache w"
      "classes_built w' = classes_built w"
  | (splitter_validate_raises) u s1 m k e where
      "upgrade_config_dict_to_latest_version env config (objects w) = (Inr u, s1)"
      "py_get (s1 u) MODEL_TYPE (PStr (MODEL_ECD env)) = Inr m"
      "split_kwargs (s1 u) = Inr k"
      "r = Inl e"
      "emitted w w' = [Upgrade config (Inr u), ReadModelType (Inr m), ReadSplit (Inr k),
         GetSplitter k None, SplitterValidate u (Some e)]"
      "schema_cache w' = schema_cache w" "validator_cache w' = validator_cache w"
      "classes_built w' = classes_built w"
  | (get_schema_raises) u s1 m k e ps wa w1 where
      "upgrade_config_dict_to_latest_version env config (objects w) = (Inr u, s1)"
      "py_get (s1 u) MODEL_TYPE (PStr (MODEL_ECD env)) = Inr m"
      "split_kwargs (s1 u) = Inr k"
      "r = Inl e"
      "emitted w w' = [Upgrade config (Inr u), ReadModelType (Inr m), ReadSplit (Inr k),
         GetSplitter k None, SplitterValidate u None, LockAcquire, GetSchema (Keyword m)] @ ps @
         [LockRelease]"
      "\<forall>x\<in>set ps. kind x = SchemaAcquisition"
      "schema_cache wa = schema_cache w" "validator_cache wa = validator_cache w"
      "classes_built wa = classes_built w"
      "get_schema env (Keyword m) wa = (Inl e, w1)"
      "schema_cache w' = schema_cache w1" "validator_cache w' = validator_cache w1"
      "classes_built w' = classes_built w1"
  | (validate_raises) u s1 m k e ps xs s v wa w1 w2 where
      "upgrade_config_dict_to_latest_version env config (objects w) = (Inr u, s1)"
      "py_get (s1 u) MODEL_TYPE (PStr (MODEL_ECD env)) = Inr m"
      "split_kwargs (s1 u) = Inr k"
      "r = Inl e"
      "emitted w w' = [Upgrade config (Inr u), ReadModelType (Inr m), ReadSplit (Inr k),
         GetSplitter k None, SplitterValidate u None, LockAcquire, GetSchema (Keyword m)] @ ps @
         GetValidator # xs @ [Validate u s v (Some e), LockRelease]"
      "\<forall>x\<in>set ps. kind x = SchemaAcquisition"
      "\<forall>x\<in>set xs. kind x = ValidatorAcquisition"
      "schema_cache wa = schema_cache w" "validator_cache wa = validator_cache w"
      "classes_built wa = classes_built w"
      "get_schema env (Keyword m) wa = (Inr s, w1)" "get_validator env w1 = (v, w2)"
      "trace w2 = trace w1 @ GetValidator # xs"
      "schema_cache w' = schema_cache w2" "validator_cache w' = validator_cache w2"
      "classes_built w' = classes_built w2"
  | (checks_run) u s1 m k ps xs s v n wa w1 w2 where
      "upgrade_config_dict_to_latest_version env config (objects w) = (Inr u, s1)"
      "py_get (s1 u) MODEL_TYPE (PStr (MODEL_ECD env)) = Inr m"
      "split_kwargs (s1 u) = Inr k"
      "emitted w w' = [Upgrade config (Inr u), ReadModelType (Inr m), ReadSplit (Inr k),
         GetSplitter k None, SplitterValidate u None, LockAcquire, GetSchema (Keyword m)] @ ps @
         GetValidator # xs @ [Validate u s v None, LockRelease] @
         map (\<lambda>c. Check c u None) (take n additional_checks) @
         (case r of Inl e \<Rightarrow> [Check (additional_checks ! n) u (Some e)] | Inr _ \<Rightarrow> [])"
      "\<forall>x\<in>set ps. kind x = SchemaAcquisition"
      "\<forall>x\<in>set xs. kind x = ValidatorAcquisition"
      "case r of Inl e \<Rightarrow> n < length additional_checks | Inr _ \<Rightarrow> n = length additional_checks"
      "schema_cache wa = schema_cache w" "validator_cache wa = validator_cache w"
      "classes_built wa = classes_built w"
      "get_schema env (Keyword m) wa = (Inr s, w1)" "get_validator env w1 = (v, w2)"
      "trace w2 = trace w1 @ GetValidator # xs"
      "schema_cache w' = schema_cache w2" "validator_cache w' = validator_cache w2"
      "classes_built w' = classes_built w2"
proof -
  obtain r1 s1 where up: "upgrade_config_dict_to_latest_version env config (objects w) = (r1, s1)"
    by (cases "upgrade_config_dict_to_latest_version env config (objects w)")
  show thesis
  proof (cases r1)
    case (Inl e)
    with run up have "r = Inl e" "w' = log (Upgrade config (Inl e)) (w\<lparr>objects := s1\<rparr>)"
      by (auto simp: validate_config_def)
    then show thesis by (intro upgrade_raises [of e] emittedI) simp_all
  next
    case u: (Inr u)
    note up' = up [unfolded u]
    define w1 where "w1 = log (Upgrade config (Inr u)) (w\<lparr>objects := s1\<rparr>)"
    show thesis
    proof (cases "py_get (s1 u) MODEL_TYPE (PStr (MODEL_ECD env))")
      case (Inl e)
      with run up' have "r = Inl e" "w' = log (ReadModelType (Inl e)) w1"
        by (auto simp: validate_config_def Let_def w1_def)
      then show thesis
        by (intro discriminator_raises [OF up', of e] emittedI) (simp_all add: w1_def)
    next
      case m: (Inr m)
      define w2 where "w2 = log (ReadModelType (Inr m)) w1"
      show thesis
      proof (cases "split_kwargs (s1 u)")
        case (Inl e)
        with run up' m have "r = Inl e" "w' = log (ReadSplit (Inl e)) w2"
          by (auto simp: validate_config_def Let_def w1_def w2_def)
        then show thesis
          by (intro split_read_raises [OF up' m, of e] emittedI) (simp_all add: w1_def w2_def)
      next
        case k: (Inr k)
        define w3 where "w3 = log (ReadSplit (Inr k)) w2"
        show thesis
        proof (cases "get_splitter env k")
          case (Inl e)
          with run up' m k have "r = Inl e" "w' = log (GetSplitter k (Some e)) w3"
            by (auto simp: validate_config_def Let_def w1_def w2_def w3_def)
          then show thesis
            by (intro get_splitter_raises [OF up' m k, of e] emittedI)
               (simp_all add: w1_def w2_def w3_def)
        next
          case sp: (Inr splitter)
          define w4 where "w4 = log (GetSplitter k None) w3"
          have o4: "objects w4 = s1" by (simp add: w1_def w2_def w3_def w4_def)
          obtain r5 s5 where sv: "splitter_validate splitter u s1 = (r5, s5)"
            by (cases "splitter_validate splitter u s1")
          show thesis
          proof (cases r5)
            case (Inl e)
            with run up' m k sp sv o4 have "r = Inl e"
              "w' = log (SplitterValidate u (Some e)) (w4\<lparr>objects := s5\<rparr>)"
              by (auto simp: validate_config_def Let_def w1_def w2_def w3_def w4_def)
            then show thesis
              by (intro splitter_validate_raises [OF up' m k, of e] emittedI)
                 (simp_all add: w1_def w2_def w3_def w4_def)
          next
            case ok5: (Inr x5)
            define w5 where "w5 = log (SplitterValidate u None) (w4\<lparr>objects := s5\<rparr>)"
            have t5: "trace w5 = trace w @ [Upgrade config (Inr u), ReadModelType (Inr m),
                ReadSplit (Inr k), GetSplitter k None, SplitterValidate u None]"
              and c5: "schema_cache (log LockAcquire w5) = schema_cache w"
                "validator_cache (log LockAcquire w5) = validator_cache w"
                "classes_built (log LockAcquire w5) = classes_built w"
              by (simp_all add: w1_def w2_def w3_def w4_def w5_def)
            obtain r6 w6 where lk: "with_VALIDATION_LOCK (locked_statement env u m) w5 = (r6, w6)"
              by (cases "with_VALIDATION_LOCK (locked_statement env u m) w5")
            from run up' m k sp sv ok5 lk o4
            have tail: "(case r6 of Inl e \<Rightarrow> (Inl e, w6)
                          | Inr _ \<Rightarrow> run_checks env additional_checks u w6) = (r, w')"
              by (simp add: validate_config_def Let_def w1_def w2_def w3_def w4_def w5_def)
            from locked_statement_effect [OF lk] show thesis
            proof (elim disjE exE conjE)
              fix e ps wb
              assume a: "r6 = Inl e"
                "get_schema env (Keyword m) (log LockAcquire w5) = (Inl e, wb)"
                "w6 = log LockRelease wb"
                "trace w6 = trace w5 @ [LockAcquire, GetSchema (Keyword m)] @ ps @ [LockRelease]"
                "\<forall>x\<in>set ps. kind x = SchemaAcquisition"
              with tail have "r = Inl e" "w' = w6" by simp_all
              with a t5 c5 show thesis
                by (intro get_schema_raises [OF up' m k, of e ps "log LockAcquire w5" wb] emittedI)
                   simp_all
            next
              fix ps xs s v wb wc
              assume a: "get_schema env (Keyword m) (log LockAcquire w5) = (Inr s, wb)"
                "get_validator env wb = (v, wc)"
                "trace wc = trace wb @ GetValidator # xs"
                "validator_cache w6 = validator_cache wc"
                "classes_built w6 = classes_built wc"
                "schema_cache w6 = schema_cache wc"
                "trace w6 = trace w5 @ [LockAcquire, GetSchema (Keyword m)] @ ps @
                  GetValidator # xs @ [Validate u s v (raised r6), LockRelease]"
                "\<forall>x\<in>set ps. kind x = SchemaAcquisition"
                "\<forall>x\<in>set xs. kind x = ValidatorAcquisition"
              show thesis
              proof (cases r6)
                case (Inl e)
                with tail have "r = Inl e" "w' = w6" by simp_all
                with a t5 c5 Inl show thesis
                  by (intro validate_raises [OF up' m k, of e ps xs s v "log LockAcquire w5" wb wc]
                        emittedI)
                     (simp_all add: raised_def)
              next
                case (Inr x6)
                with tail have rc: "run_checks env additional_checks u w6 = (r, w')" by simp
                from run_checks_effect [OF rc] obtain n where
                  n: "trace w' = trace w6 @ map (\<lambda>c. Check c u None) (take n additional_checks) @
                       (case r of Inl e \<Rightarrow> [Check (additional_checks ! n) u (Some e)] | Inr _ \<Rightarrow> [])"
                    "case r of Inl e \<Rightarrow> n < length additional_checks
                       | Inr _ \<Rightarrow> n = length additional_checks"
                  by blast
                from run_checks_caches [of env additional_checks u w6] rc a
                have c': "schema_cache w' = schema_cache wc" "validator_cache w' = validator_cache wc"
                  "classes_built w' = classes_built wc" by simp_all
                with n a t5 c5 Inr show thesis
                  by (intro checks_run [OF up' m k, of ps xs s v n "log LockAcquire w5" wb wc]
                        emittedI)
                     (simp_all add: raised_def)
              qed
            qed
          qed
        qed
      qed
    qed
  qed
qed

subsection \<open>Observations\<close>

lemma checks_of_append: "checks_of (xs @ ys) = checks_of xs @ checks_of ys"
  by (induction xs rule: checks_of.induct) auto

lemma checks_of_none: "\<forall>x\<in>set xs. kind x \<noteq> Semantic \<Longrightarrow> checks_of xs = []"
  by (induction xs rule: checks_of.induct) auto

lemma checks_of_passed: "checks_of (map (\<lambda>c. Check c u None) cs) = map (\<lambda>c. (c, u, None)) cs"
  by (induction cs) auto

lemma preceded_append:
  "preceded P Q (xs @ ys) = (preceded P Q xs \<and> ((\<exists>x\<in>set xs. P x) \<or> preceded P Q ys))"
  by (induction xs) auto

lemma preceded_none: "\<forall>x\<in>set xs. \<not> Q x \<Longrightarrow> preceded P Q xs"
  by (induction xs) auto

lemma under_lock_append:
  "\<forall>x\<in>set xs. kind x \<noteq> Acquire \<and> kind x \<noteq> Release \<Longrightarrow>
   under_lock h (xs @ ys) = (if h then xs else []) @ under_lock h ys"
  by (induction h xs rule: under_lock.induct) auto

lemma outside_lock_append:
  "\<forall>x\<in>set xs. kind x \<noteq> Acquire \<and> kind x \<noteq> Release \<Longrightarrow>
   outside_lock h (xs @ ys) = (if h then [] else xs) @ outside_lock h ys"
  by (induction h xs rule: outside_lock.induct) auto

lemma lock_held_append:
  "\<forall>x\<in>set xs. kind x \<noteq> Acquire \<and> kind x \<noteq> Release \<Longrightarrow>
   lock_held h (xs @ ys) = lock_held h ys"
  by (induction h xs rule: lock_held.induct) auto

lemma split_kwargs_absent:
  "map_of d PREPROCESSING = None \<Longrightarrow> split_kwargs (PDict d) = Inr []"
  "map_of d PREPROCESSING = Some (PDict p) \<Longrightarrow> map_of p SPLIT = None \<Longrightarrow> split_kwargs (PDict d) = Inr []"
  "map_of d PREPROCESSING = Some (PDict p) \<Longrightarrow> map_of p SPLIT = Some (PDict k) \<Longrightarrow> split_kwargs (PDict d) = Inr k"
  by (simp_all add: split_kwargs_def)

lemma receives_none:
  "kind e = SchemaAcquisition \<Longrightarrow> receives e = None"
  "kind e = ValidatorAcquisition \<Longrightarrow> receives e = None"
  by (cases e; simp)+

lemma validators_of_append: "validators_of (xs @ ys) = validators_of xs @ validators_of ys"
  by (induction xs rule: validators_of.induct) auto

lemma validators_of_none: "\<forall>x\<in>set xs. kind x \<noteq> Structural \<Longrightarrow> validators_of xs = []"
  by (induction xs rule: validators_of.induct) auto

subsection \<open>The schema and its cache\<close>

lemma eval_entries_result: "fst (eval_entries es w) = fst (eval_entries es w')"
proof (induction es arbitrary: w w')
  case Nil
  show ?case by simp
next
  case (Cons a es)
  obtain k call where a: "a = (k, call)" by (cases a)
  show ?case
  proof (cases call)
    case (Inl e)
    with a show ?thesis by simp
  next
    case (Inr v)
    from Cons.IH [of "log (Provider k None) w" "log (Provider k None) w'"] a Inr
    show ?thesis by (simp add: split_beta split: sum.splits)
  qed
qed

lemma get_schema_wrapped_result:
  "fst (get_schema_wrapped env m w) = fst (get_schema_wrapped env m w')"
proof -
  let ?es = "[(MODEL_TYPE, get_model_type_jsonschema env),
         (INPUT_FEATURES, get_input_feature_jsonschema env),
         (OUTPUT_FEATURES, get_output_feature_jsonschema env),
         (COMBINER, get_combiner_jsonschema env),
         (TRAINER, get_trainer_jsonschema env m),
         (PREPROCESSING, get_preprocessing_jsonschema env),
         (HYPEROPT, get_hyperopt_jsonschema env),
         (DEFAULTS, get_defaults_jsonschema env)]"
  have "fst (eval_entries ?es w) = fst (eval_entries ?es w')" by (rule eval_entries_result)
  then show ?thesis
    unfolding get_schema_wrapped_def by (simp add: split_beta split: sum.splits)
qed

lemma key_constants:
  "MODEL_TYPE = ''model_type''" "INPUT_FEATURES = ''input_features''"
  "OUTPUT_FEATURES = ''output_features''" "COMBINER = ''combiner''" "TRAINER = ''trainer''"
  "PREPROCESSING = ''preprocessing''" "HYPEROPT = ''hyperopt''" "DEFAULTS = ''defaults''"
  by (simp_all add: MODEL_TYPE_def INPUT_FEATURES_def OUTPUT_FEATURES_def COMBINER_def TRAINER_def
      PREPROCESSING_def HYPEROPT_def DEFAULTS_def)

lemma get_schema_wrapped_returns:
  assumes "get_model_type_jsonschema env = Inr f1" "get_input_feature_jsonschema env = Inr f2"
    "get_output_feature_jsonschema env = Inr f3" "get_combiner_jsonschema env = Inr f4"
    "get_trainer_jsonschema env m = Inr f5" "get_preprocessing_jsonschema env = Inr f6"
    "get_hyperopt_jsonschema env = Inr f7" "get_defaults_jsonschema env = Inr f8"
  shows "fst (get_schema_wrapped env m w) =
     Inr (PDict [(''type'', PStr ''object''),
                 (''properties'',
                    PDict [(''model_type'', f1), (''input_features'', f2),
                           (''output_features'', f3), (''combiner'', f4), (''trainer'', f5),
                           (''preprocessing'', f6), (''hyperopt'', f7), (''defaults'', f8)]),
                 (''definitions'', PDict []),
                 (''required'', PList [PStr ''input_features'', PStr ''output_features''])])"
  using assms by (simp add: get_schema_wrapped_def dict_display_def key_constants)

lemma get_schema_wrapped_Inr:
  assumes "fst (get_schema_wrapped env m w) = Inr schema"
  shows "\<exists>f1 f2 f3 f4 f5 f6 f7 f8.
      get_model_type_jsonschema env = Inr f1 \<and> get_input_feature_jsonschema env = Inr f2 \<and>
      get_output_feature_jsonschema env = Inr f3 \<and> get_combiner_jsonschema env = Inr f4 \<and>
      get_trainer_jsonschema env m = Inr f5 \<and> get_preprocessing_jsonschema env = Inr f6 \<and>
      get_hyperopt_jsonschema env = Inr f7 \<and> get_defaults_jsonschema env = Inr f8"
  using assms unfolding get_schema_wrapped_def
  by (cases "get_model_type_jsonschema env"; cases "get_input_feature_jsonschema env";
      cases "get_output_feature_jsonschema env"; cases "get_combiner_jsonschema env";
      cases "get_trainer_jsonschema env m"; cases "get_preprocessing_jsonschema env";
      cases "get_hyperopt_jsonschema env"; cases "get_defaults_jsonschema env") simp_all

lemma get_schema_wrapped_trainer_raises:
  assumes "get_model_type_jsonschema env = Inr f1" "get_input_feature_jsonschema env = Inr f2"
    "get_output_feature_jsonschema env = Inr f3" "get_combiner_jsonschema env = Inr f4"
    "get_trainer_jsonschema env m = Inl e"
  shows "fst (get_schema_wrapped env m w) = Inl e"
  using assms by (simp add: get_schema_wrapped_def)

lemma get_schema_result:
  assumes "schema_cache_sound env w"
  shows "fst (get_schema env args w) =
     (if hashable_args args then fst (get_schema_wrapped env (bound_model_type env args) w)
      else Inl TypeError)"
proof (cases "hashable_args args")
  case False
  then show ?thesis by (simp add: get_schema_def Let_def)
next
  case True
  show ?thesis
  proof (cases "map_of (schema_cache w) args")
    case None
    with True show ?thesis
      using get_schema_wrapped_result [of env "bound_model_type env args" "log (GetSchema args) w" w]
      by (simp add: get_schema_def Let_def split_beta split: sum.splits)
  next
    case (Some schema)
    then have "(args, schema) \<in> set (schema_cache w)" by (rule map_of_SomeD)
    with assms have "fst (get_schema_wrapped env (bound_model_type env args) w) = Inr schema"
      by (auto simp: schema_cache_sound_def)
    with True Some show ?thesis by (simp add: get_schema_def Let_def)
  qed
qed

lemma schema_cache_sound_start: "schema_cache w = [] \<Longrightarrow> schema_cache_sound env w"
  by (simp add: schema_cache_sound_def)

lemma schema_cache_sound_get_schema:
  assumes "schema_cache_sound env w"
  shows "schema_cache_sound env (snd (get_schema env args w))"
proof -
  have sub: "set (lru_touch k v c) \<subseteq> insert (k, v) (set c)" for k :: call_args and v :: pyval and c
    by (auto simp: lru_touch_def)
  have sub2: "set (lru_add n k v c) \<subseteq> insert (k, v) (set c)" for n and k :: call_args and v :: pyval and c
    by (cases c) (auto simp: lru_add_def)
  note ind = get_schema_wrapped_result [of env _ "snd (get_schema env args w)" w]
  show ?thesis
  proof (cases "hashable_args args")
    case False
    with assms show ?thesis
      using get_schema_wrapped_result [of env _ "log (GetSchema args) w" w]
      by (simp add: get_schema_def Let_def schema_cache_sound_def)
  next
    case True
    show ?thesis
    proof (cases "map_of (schema_cache w) args")
      case (Some schema)
      then have "(args, schema) \<in> set (schema_cache w)" by (rule map_of_SomeD)
      with True Some assms sub [of args schema "schema_cache w"] show ?thesis
        unfolding schema_cache_sound_def ind
        by (auto simp: get_schema_def Let_def)
    next
      case None
      obtain r1 w1 where b: "get_schema_wrapped env (bound_model_type env args) (log (GetSchema args) w) = (r1, w1)"
        by (cases "get_schema_wrapped env (bound_model_type env args) (log (GetSchema args) w)")
      from get_schema_wrapped_effect [OF b] have c1: "schema_cache w1 = schema_cache w" by auto
      from b get_schema_wrapped_result [of env "bound_model_type env args" "log (GetSchema args) w" w]
      have r1: "fst (get_schema_wrapped env (bound_model_type env args) w) = r1" by simp
      show ?thesis
      proof (cases r1)
        case (Inl e)
        with True None b c1 assms show ?thesis
          unfolding schema_cache_sound_def ind by (simp add: get_schema_def Let_def)
      next
        case (Inr schema)
        with True None b c1 r1 assms sub2 [of 2 args schema "schema_cache w"] show ?thesis
          unfolding schema_cache_sound_def ind by (auto simp: get_schema_def Let_def)
      qed
    qed
  qed
qed

lemma hashable_args_string: "bound_model_type env args = PStr m \<Longrightarrow> hashable_args args"
  by (cases args) auto

lemma get_schema_Inr:
  assumes "schema_cache_sound env w" "fst (get_schema env args w) = Inr schema"
  shows "\<exists>f1 f2 f3 f4 f5 f6 f7 f8.
      get_model_type_jsonschema env = Inr f1 \<and> get_input_feature_jsonschema env = Inr f2 \<and>
      get_output_feature_jsonschema env = Inr f3 \<and> get_combiner_jsonschema env = Inr f4 \<and>
      get_trainer_jsonschema env (bound_model_type env args) = Inr f5 \<and>
      get_preprocessing_jsonschema env = Inr f6 \<and>
      get_hyperopt_jsonschema env = Inr f7 \<and> get_defaults_jsonschema env = Inr f8 \<and>
      schema =
        PDict [(''type'', PStr ''object''),
               (''properties'',
                  PDict [(''model_type'', f1), (''input_features'', f2),
                         (''output_features'', f3), (''combiner'', f4), (''trainer'', f5),
                         (''preprocessing'', f6), (''hyperopt'', f7), (''defaults'', f8)]),
               (''definitions'', PDict []),
               (''required'', PList [PStr ''input_features'', PStr ''output_features''])]"
proof -
  from assms have h: "hashable_args args"
    and b: "fst (get_schema_wrapped env (bound_model_type env args) w) = Inr schema"
    by (auto simp: get_schema_result split: if_splits)
  from get_schema_wrapped_Inr [OF b] obtain f1 f2 f3 f4 f5 f6 f7 f8 where
    f: "get_model_type_jsonschema env = Inr f1" "get_input_feature_jsonschema env = Inr f2"
      "get_output_feature_jsonschema env = Inr f3" "get_combiner_jsonschema env = Inr f4"
      "get_trainer_jsonschema env (bound_model_type env args) = Inr f5"
      "get_preprocessing_jsonschema env = Inr f6"
      "get_hyperopt_jsonschema env = Inr f7" "get_defaults_jsonschema env = Inr f8"
    by blast
  from get_schema_wrapped_returns [OF f, of w] b f show ?thesis by simp
qed

lemma get_schema_frame:
  "objects (snd (get_schema env a w)) = objects w"
  "validator_cache (snd (get_schema env a w)) = validator_cache w"
  "classes_built (snd (get_schema env a w)) = classes_built w"
  using get_schema_effect [of env a w "fst (get_schema env a w)" "snd (get_schema env a w)"]
  by auto

lemma get_validator_frame:
  "objects (snd (get_validator env w)) = objects w"
  "schema_cache (snd (get_validator env w)) = schema_cache w"
  using get_validator_effect [of env w "fst (get_validator env w)" "snd (get_validator env w)"]
  by auto

lemma schema_cache_sound_cong:
  "schema_cache w' = schema_cache w \<Longrightarrow> schema_cache_sound env w \<Longrightarrow> schema_cache_sound env w'"
  unfolding schema_cache_sound_def
  using get_schema_wrapped_result [of env _ w' w] by simp

lemma schema_cache_sound_validate_config:
  assumes "schema_cache_sound env w" and "validate_config env config w = (r, w')"
  shows "schema_cache_sound env w'"
  using assms(2)
proof (cases rule: validate_config_run)
  case (upgrade_raises e)
  from schema_cache_sound_cong [OF upgrade_raises(3) assms(1)] show ?thesis .
next
  case (discriminator_raises u s1 e)
  from schema_cache_sound_cong [OF discriminator_raises(4) assms(1)] show ?thesis .
next
  case (split_read_raises u s1 m e)
  from schema_cache_sound_cong [OF split_read_raises(5) assms(1)] show ?thesis .
next
  case (get_splitter_raises u s1 m k e)
  from schema_cache_sound_cong [OF get_splitter_raises(6) assms(1)] show ?thesis .
next
  case (splitter_validate_raises u s1 m k e)
  from schema_cache_sound_cong [OF splitter_validate_raises(6) assms(1)] show ?thesis .
next
  case (get_schema_raises u s1 m k e ps wa w1)
  from schema_cache_sound_cong [OF get_schema_raises(7) assms(1)]
  have "schema_cache_sound env wa" .
  from schema_cache_sound_get_schema [OF this, of "Keyword m"] get_schema_raises(10)
  have "schema_cache_sound env w1" by simp
  from schema_cache_sound_cong [OF get_schema_raises(11) this] show ?thesis .
next
  case (validate_raises u s1 m k e ps xs s v wa w1 w2)
  from schema_cache_sound_cong [OF validate_raises(8) assms(1)]
  have "schema_cache_sound env wa" .
  from schema_cache_sound_get_schema [OF this, of "Keyword m"] validate_raises(11)
  have 1: "schema_cache_sound env w1" by simp
  from get_validator_frame(2) [of env w1] validate_raises(12)
  have "schema_cache w2 = schema_cache w1" by simp
  from schema_cache_sound_cong [OF this 1] have "schema_cache_sound env w2" .
  from schema_cache_sound_cong [OF validate_raises(14) this] show ?thesis .
next
  case (checks_run u s1 m k ps xs s v n wa w1 w2)
  from schema_cache_sound_cong [OF checks_run(8) assms(1)]
  have "schema_cache_sound env wa" .
  from schema_cache_sound_get_schema [OF this, of "Keyword m"] checks_run(11)
  have 1: "schema_cache_sound env w1" by simp
  from get_validator_frame(2) [of env w1] checks_run(12)
  have "schema_cache w2 = schema_cache w1" by simp
  from schema_cache_sound_cong [OF this 1] have "schema_cache_sound env w2" .
  from schema_cache_sound_cong [OF checks_run(14) this] show ?thesis .
qed

subsection \<open>The validator and its cache\<close>

lemma get_validator_sound:
  assumes "validator_cache_sound env w" "get_validator env w = (cls, w')"
  shows "TYPE_CHECKER cls = redefine (Draft7Validator_TYPE_CHECKER env) ''array'' custom_is_array"
    and "validator_cache_sound env w'"
proof -
  show "TYPE_CHECKER cls = redefine (Draft7Validator_TYPE_CHECKER env) ''array'' custom_is_array"
  proof (cases "map_of (validator_cache w) ()")
    case None
    with assms(2) show ?thesis
      by (auto simp: get_validator_def get_validator_wrapped_def extend_def Let_def)
  next
    case (Some c)
    then have "((), c) \<in> set (validator_cache w)" by (rule map_of_SomeD)
    with assms Some show ?thesis
      by (auto simp: get_validator_def Let_def validator_cache_sound_def)
  qed
  then show "validator_cache_sound env w'"
    using assms
    by (cases "validator_cache w")
       (auto simp: get_validator_def get_validator_wrapped_def extend_def Let_def log_def
          validator_cache_sound_def lru_add_def lru_touch_def split: option.splits if_splits)
qed

lemma custom_is_array_iff:
  "custom_is_array c v = ((\<exists>ys. v = PList ys) \<or> (\<exists>ys. v = PTuple ys))"
  by (cases v) (simp_all add: custom_is_array_def isinstance_list_def isinstance_tuple_def)

lemma redefined_array:
  assumes "tc = redefine base ''array'' custom_is_array"
  shows "is_type tc v ''array'' = Inr ((\<exists>ys. v = PList ys) \<or> (\<exists>ys. v = PTuple ys))"
    and "name \<noteq> ''array'' \<Longrightarrow> is_type tc v name = is_type base v name"
  using assms by (simp_all add: is_type_def redefine_def custom_is_array_iff)

lemma validator_cache_sound_start: "validator_cache w = [] \<Longrightarrow> validator_cache_sound env w"
  by (simp add: validator_cache_sound_def)

lemma validator_cache_sound_cong:
  "validator_cache w' = validator_cache w \<Longrightarrow> validator_cache_sound env w \<Longrightarrow>
   validator_cache_sound env w'"
  by (simp add: validator_cache_sound_def)

lemma validate_config_validators_sound:
  assumes s: "validator_cache_sound env w" and run: "validate_config env config w = (r, w')"
  shows "validator_cache_sound env w'
       \<and> (\<forall>cls\<in>set (validators_of (emitted w w')).
            TYPE_CHECKER cls = redefine (Draft7Validator_TYPE_CHECKER env) ''array'' custom_is_array)"
  using run
proof (cases rule: validate_config_run)
  case (upgrade_raises e)
  with validator_cache_sound_cong [OF upgrade_raises(4) s] show ?thesis by simp
next
  case (discriminator_raises u s1 e)
  with validator_cache_sound_cong [OF discriminator_raises(5) s] show ?thesis by simp
next
  case (split_read_raises u s1 m e)
  with validator_cache_sound_cong [OF split_read_raises(6) s] show ?thesis by simp
next
  case (get_splitter_raises u s1 m k e)
  with validator_cache_sound_cong [OF get_splitter_raises(7) s] show ?thesis by simp
next
  case (splitter_validate_raises u s1 m k e)
  with validator_cache_sound_cong [OF splitter_validate_raises(7) s] show ?thesis by simp
next
  case (get_schema_raises u s1 m k e ps wa w1)
  from get_schema_frame(2) [of env "Keyword m" wa] get_schema_raises(8,10,12)
  have "validator_cache w' = validator_cache w" by simp
  from validator_cache_sound_cong [OF this s] get_schema_raises(5,6) show ?thesis
    by (simp add: validators_of_append validators_of_none)
next
  case (validate_raises u s1 m k e ps xs s' v wa w1 w2)
  from get_schema_frame(2) [of env "Keyword m" wa] validate_raises(9,11)
  have "validator_cache w1 = validator_cache w" by simp
  from validator_cache_sound_cong [OF this s] have s1: "validator_cache_sound env w1" .
  note g = get_validator_sound [OF s1 validate_raises(12)]
  from validator_cache_sound_cong [OF validate_raises(15) g(2)] g(1) validate_raises(5,6,7)
  show ?thesis by (simp add: validators_of_append validators_of_none)
next
  case (checks_run u s1 m k ps xs s' v n wa w1 w2)
  from get_schema_frame(2) [of env "Keyword m" wa] checks_run(9,11)
  have "validator_cache w1 = validator_cache w" by simp
  from validator_cache_sound_cong [OF this s] have s1: "validator_cache_sound env w1" .
  note g = get_validator_sound [OF s1 checks_run(12)]
  have "validators_of (map (\<lambda>c. Check c u None) (take n additional_checks) @
         (case r of Inl e \<Rightarrow> [Check (additional_checks ! n) u (Some e)] | Inr _ \<Rightarrow> [])) = []"
    by (rule validators_of_none) (auto split: sum.splits)
  with validator_cache_sound_cong [OF checks_run(15) g(2)] g(1) checks_run(4,5,6)
  show ?thesis by (simp add: validators_of_append validators_of_none)
qed

lemma validator_cache_sound_validate_config:
  "validator_cache_sound env w \<Longrightarrow> validate_config env config w = (r, w') \<Longrightarrow>
   validator_cache_sound env w'"
  using validate_config_validators_sound by blast

lemma get_validator_hit:
  assumes "validator_cache w = [((), cls)]" and "get_validator env w = (cls', w')"
  shows "cls' = cls" and "validator_cache w' = [((), cls)]"
    and "classes_built w' = classes_built w" and "trace w' = trace w @ [GetValidator]"
  using assms by (auto simp: get_validator_def Let_def lru_touch_def)

lemma get_validator_miss:
  assumes "validator_cache w = []" and "get_validator env w = (cls, w')"
  shows "validator_cache w' = [((), cls)]" and "classes_built w' = Suc (classes_built w)"
  using assms
  by (auto simp: get_validator_def get_validator_wrapped_def extend_def Let_def lru_add_def)

lemma validate_config_cached:
  assumes c: "validator_cache w = [((), cls)]" and run: "validate_config env config w = (r, w')"
  shows "validator_cache w' = [((), cls)] \<and> classes_built w' = classes_built w
       \<and> (\<forall>v\<in>set (validators_of (emitted w w')). v = cls)"
  using run
proof (cases rule: validate_config_run)
  case (get_schema_raises u s1 m k e ps wa w1)
  from get_schema_frame(2,3) [of env "Keyword m" wa] get_schema_raises c
  have "validator_cache w' = [((), cls)]" "classes_built w' = classes_built w" by simp_all
  with get_schema_raises(5,6) show ?thesis
    by (simp add: validators_of_append validators_of_none)
next
  case (validate_raises u s1 m k e ps xs s v wa w1 w2)
  from get_schema_frame(2,3) [of env "Keyword m" wa] validate_raises c
  have c1: "validator_cache w1 = [((), cls)]" "classes_built w1 = classes_built w" by simp_all
  note h = get_validator_hit [OF c1(1) validate_raises(12)]
  with c1 validate_raises show ?thesis
    by (simp add: validators_of_append validators_of_none)
next
  case (checks_run u s1 m k ps xs s v n wa w1 w2)
  from get_schema_frame(2,3) [of env "Keyword m" wa] checks_run c
  have c1: "validator_cache w1 = [((), cls)]" "classes_built w1 = classes_built w" by simp_all
  note h = get_validator_hit [OF c1(1) checks_run(12)]
  have "validators_of (map (\<lambda>c. Check c u None) (take n additional_checks) @
         (case r of Inl e \<Rightarrow> [Check (additional_checks ! n) u (Some e)] | Inr _ \<Rightarrow> [])) = []"
    by (rule validators_of_none) (auto split: sum.splits)
  with h c1 checks_run show ?thesis
    by (simp add: validators_of_append validators_of_none)
qed (use c in auto)

lemma validate_config_fresh:
  assumes c: "validator_cache w = []" and run: "validate_config env config w = (r, w')"
  shows "(validators_of (emitted w w') = [] \<and> validator_cache w' = []
            \<and> classes_built w' = classes_built w)
       \<or> (\<exists>cls. validators_of (emitted w w') = [cls] \<and> validator_cache w' = [((), cls)]
            \<and> classes_built w' = Suc (classes_built w))"
  using run
proof (cases rule: validate_config_run)
  case (get_schema_raises u s1 m k e ps wa w1)
  from get_schema_frame(2,3) [of env "Keyword m" wa] get_schema_raises c
  have "validator_cache w' = []" "classes_built w' = classes_built w" by simp_all
  with get_schema_raises(5,6) show ?thesis
    by (simp add: validators_of_append validators_of_none)
next
  case (validate_raises u s1 m k e ps xs s v wa w1 w2)
  from get_schema_frame(2,3) [of env "Keyword m" wa] validate_raises c
  have c1: "validator_cache w1 = []" "classes_built w1 = classes_built w" by simp_all
  note h = get_validator_miss [OF c1(1) validate_raises(12)]
  with c1 validate_raises show ?thesis
    by (simp add: validators_of_append validators_of_none)
next
  case (checks_run u s1 m k ps xs s v n wa w1 w2)
  from get_schema_frame(2,3) [of env "Keyword m" wa] checks_run c
  have c1: "validator_cache w1 = []" "classes_built w1 = classes_built w" by simp_all
  note h = get_validator_miss [OF c1(1) checks_run(12)]
  have "validators_of (map (\<lambda>c. Check c u None) (take n additional_checks) @
         (case r of Inl e \<Rightarrow> [Check (additional_checks ! n) u (Some e)] | Inr _ \<Rightarrow> [])) = []"
    by (rule validators_of_none) (auto split: sum.splits)
  with h c1 checks_run show ?thesis
    by (simp add: validators_of_append validators_of_none)
qed (use c in auto)

lemma perform_cached:
  assumes "validator_cache w = [((), cls)]" and "perform env call w = (clss, w')"
  shows "validator_cache w' = [((), cls)] \<and> classes_built w' = classes_built w
       \<and> (\<forall>v\<in>set clss. v = cls)"
proof (cases call)
  case (GetSchemaCall args)
  with assms get_schema_frame(2,3) [of env args w] show ?thesis by auto
next
  case GetValidatorCall
  obtain c w1 where g: "get_validator env w = (c, w1)" by (cases "get_validator env w")
  from get_validator_hit [OF assms(1) g] g assms(2) GetValidatorCall show ?thesis by auto
next
  case (ValidateConfigCall config)
  obtain r w1 where g: "validate_config env config w = (r, w1)"
    by (cases "validate_config env config w")
  from validate_config_cached [OF assms(1) g] g assms(2) ValidateConfigCall show ?thesis by auto
qed

lemma perform_fresh:
  assumes "validator_cache w = []" and "perform env call w = (clss, w')"
  shows "(clss = [] \<and> validator_cache w' = [] \<and> classes_built w' = classes_built w)
       \<or> (\<exists>cls. clss = [cls] \<and> validator_cache w' = [((), cls)]
            \<and> classes_built w' = Suc (classes_built w))"
proof (cases call)
  case (GetSchemaCall args)
  with assms get_schema_frame(2,3) [of env args w] show ?thesis by auto
next
  case GetValidatorCall
  obtain c w1 where g: "get_validator env w = (c, w1)" by (cases "get_validator env w")
  from get_validator_miss [OF assms(1) g] g assms(2) GetValidatorCall show ?thesis by auto
next
  case (ValidateConfigCall config)
  obtain r w1 where g: "validate_config env config w = (r, w1)"
    by (cases "validate_config env config w")
  from validate_config_fresh [OF assms(1) g] g assms(2) ValidateConfigCall show ?thesis by auto
qed

lemma process_calls_cached:
  assumes "validator_cache w = [((), cls)]" and "process_calls env calls w = (clss, w')"
  shows "validator_cache w' = [((), cls)] \<and> classes_built w' = classes_built w
       \<and> (\<forall>v\<in>set clss. v = cls)"
  using assms
proof (induction calls arbitrary: w clss w')
  case Nil
  then show ?case by simp
next
  case (Cons call calls)
  obtain c1 w1 where p: "perform env call w = (c1, w1)" by (cases "perform env call w")
  obtain c2 w2 where q: "process_calls env calls w1 = (c2, w2)"
    by (cases "process_calls env calls w1")
  from perform_cached [OF Cons.prems(1) p]
  have 1: "validator_cache w1 = [((), cls)]" "classes_built w1 = classes_built w"
    "\<forall>v\<in>set c1. v = cls" by simp_all
  from Cons.IH [OF 1(1) q] 1 p q Cons.prems(2) show ?case by auto
qed

lemma calls_in_sequence_share_validator:
  assumes "validator_cache w = []" and "process_calls env calls w = (clss, w')"
  shows "(\<forall>cls\<in>set clss. cls = hd clss)
       \<and> classes_built w' \<le> Suc (classes_built w)
       \<and> (clss = [] \<longrightarrow> validator_cache w' = [] \<and> classes_built w' = classes_built w)
       \<and> (clss \<noteq> [] \<longrightarrow>
            validator_cache w' = [((), hd clss)] \<and> classes_built w' = Suc (classes_built w))"
  using assms
proof (induction calls arbitrary: w clss w')
  case Nil
  then show ?case by simp
next
  case (Cons call calls)
  obtain c1 w1 where p: "perform env call w = (c1, w1)" by (cases "perform env call w")
  obtain c2 w2 where q: "process_calls env calls w1 = (c2, w2)"
    by (cases "process_calls env calls w1")
  from p q Cons.prems(2) have eq: "clss = c1 @ c2" "w' = w2" by simp_all
  from perform_fresh [OF Cons.prems(1) p] show ?case
  proof (elim disjE exE conjE)
    assume a: "c1 = []" "validator_cache w1 = []" "classes_built w1 = classes_built w"
    from Cons.IH [OF a(2) q] a eq show ?thesis by simp
  next
    fix cls
    assume a: "c1 = [cls]" "validator_cache w1 = [((), cls)]"
      "classes_built w1 = Suc (classes_built w)"
    from process_calls_cached [OF a(2) q] a eq show ?thesis by auto
  qed
qed

subsection \<open>The caches in reachable states\<close>

lemma perform_sound:
  assumes "schema_cache_sound env w" and "validator_cache_sound env w"
    and "perform env call w = (clss, w')"
  shows "schema_cache_sound env w' \<and> validator_cache_sound env w'"
proof (cases call)
  case (GetSchemaCall args)
  with assms(3) have w': "w' = snd (get_schema env args w)" by simp
  have "validator_cache (snd (get_schema env args w)) = validator_cache w"
    by (rule get_schema_frame(2))
  from validator_cache_sound_cong [OF this assms(2)]
    schema_cache_sound_get_schema [OF assms(1), where args = args]
  show ?thesis unfolding w' by simp
next
  case GetValidatorCall
  obtain c w1 where g: "get_validator env w = (c, w1)" by (cases "get_validator env w")
  with assms(3) GetValidatorCall have w': "w' = w1" by simp
  from get_validator_frame(2) [of env w] g have "schema_cache w1 = schema_cache w" by simp
  from schema_cache_sound_cong [OF this assms(1)] get_validator_sound(2) [OF assms(2) g]
  show ?thesis unfolding w' by simp
next
  case (ValidateConfigCall config)
  obtain r w1 where g: "validate_config env config w = (r, w1)"
    by (cases "validate_config env config w")
  with assms(3) ValidateConfigCall have w': "w' = w1" by simp
  from schema_cache_sound_validate_config [OF assms(1) g]
    validator_cache_sound_validate_config [OF assms(2) g]
  show ?thesis unfolding w' by simp
qed

lemma process_calls_sound:
  assumes "schema_cache_sound env w" and "validator_cache_sound env w"
    and "process_calls env calls w = (clss, w')"
  shows "schema_cache_sound env w' \<and> validator_cache_sound env w'"
  using assms
proof (induction calls arbitrary: w clss w')
  case Nil
  then show ?case by simp
next
  case (Cons call calls)
  obtain c1 w1 where p: "perform env call w = (c1, w1)" by (cases "perform env call w")
  obtain c2 w2 where q: "process_calls env calls w1 = (c2, w2)"
    by (cases "process_calls env calls w1")
  from perform_sound [OF Cons.prems(1,2) p]
  have "schema_cache_sound env w1" "validator_cache_sound env w1" by simp_all
  from Cons.IH [OF this q] p q Cons.prems(3) show ?case by simp
qed

lemma caches_sound_reachable:
  assumes "schema_cache w = []" and "validator_cache w = []"
    and "process_calls env calls w = (clss, w')"
  shows "schema_cache_sound env w' \<and> validator_cache_sound env w'"
  using process_calls_sound [OF schema_cache_sound_start [OF assms(1)]
      validator_cache_sound_start [OF assms(2)] assms(3)] .

subsection \<open>Threads: a thread that runs alone\<close>

lemma get_validator_alone:
  "run env [0, 0, 0] ([Caller Lookup], locked, w)
     = ([Caller (Returned (fst (get_validator env w)))], locked, snd (get_validator env w))"
  by (simp add: get_validator_def Let_def split: option.splits prod.splits)

lemma run_append: "run env (xs @ ys) s = run env ys (run env xs s)"
  by (induction xs arbitrary: s) simp_all

lemma run_Finished: "run env (replicate n 0) ([Finished r], locked, w) = ([Finished r], locked, w)"
  by (induction n) simp_all

lemma run_pad:
  assumes "run env (replicate k 0) s = ([Finished r], locked, w)" and "k \<le> n"
  shows "run env (replicate n 0) s = ([Finished r], locked, w)"
proof -
  from assms(2) have "replicate n (0::nat) = replicate k 0 @ replicate (n - k) 0"
    by (simp add: replicate_add [symmetric])
  with assms(1) show ?thesis by (simp add: run_append run_Finished)
qed

lemma checks_alone:
  "run env (replicate (Suc (length cs)) 0) ([AtChecks u cs], locked, w)
     = ([Finished (fst (run_checks env cs u w))], locked, snd (run_checks env cs u w))"
proof (induction cs arbitrary: w)
  case Nil
  show ?case by simp
next
  case (Cons c cs)
  obtain r s where a: "auxiliary_validations env c u (objects w) = (r, s)"
    by (cases "auxiliary_validations env c u (objects w)")
  show ?case
  proof (cases r)
    case (Inl e)
    with a show ?thesis
      using run_Finished [of env "Suc (length cs)"] by simp
  next
    case (Inr x)
    with a Cons.IH [of "log (Check c u None) (w\<lparr>objects := s\<rparr>)"] show ?thesis by simp
  qed
qed

lemma locked_alone:
  assumes "with_VALIDATION_LOCK (locked_statement env u m) w = (r, w')"
  shows "\<exists>k\<le>7. run env (replicate k 0) ([AtLock u m], False, w)
           = ([case r of Inl e \<Rightarrow> Finished (Inl e) | Inr _ \<Rightarrow> AtChecks u additional_checks],
              False, w')"
proof -
  let ?w1 = "log LockAcquire w"
  obtain rs w2 where g: "get_schema env (Keyword m) ?w1 = (rs, w2)"
    by (cases "get_schema env (Keyword m) ?w1")
  show ?thesis
  proof (cases rs)
    case (Inl e)
    with g assms have "run env (replicate 3 0) ([AtLock u m], False, w)
           = ([case r of Inl e \<Rightarrow> Finished (Inl e) | Inr _ \<Rightarrow> AtChecks u additional_checks],
              False, w')"
      by (auto simp: numeral_3_eq_3 with_VALIDATION_LOCK_def locked_statement_def)
    then show ?thesis by (intro exI [of _ 3]) simp
  next
    case (Inr schema)
    obtain cls w3 where v: "get_validator env w2 = (cls, w3)" by (cases "get_validator env w2")
    obtain rv s where val: "validate env u schema cls (objects w3) = (rv, s)"
      by (cases "validate env u schema cls (objects w3)")
    from g Inr v val assms have r: "r = rv"
      and w': "w' = log LockRelease (log (Validate u schema cls (raised rv)) (w3\<lparr>objects := s\<rparr>))"
      by (auto simp: with_VALIDATION_LOCK_def locked_statement_def)
    show ?thesis
    proof (cases "map_of (validator_cache w2) ()")
      case None
      with g Inr v val r w' have "run env (replicate 7 0) ([AtLock u m], False, w)
           = ([case r of Inl e \<Rightarrow> Finished (Inl e) | Inr _ \<Rightarrow> AtChecks u additional_checks],
              False, w')"
        by (auto simp: eval_nat_numeral get_validator_def Let_def split: prod.splits sum.splits)
      then show ?thesis by (intro exI [of _ 7]) simp
    next
      case (Some c)
      with g Inr v val r w' have "run env (replicate 5 0) ([AtLock u m], False, w)
           = ([case r of Inl e \<Rightarrow> Finished (Inl e) | Inr _ \<Rightarrow> AtChecks u additional_checks],
              False, w')"
        by (auto simp: eval_nat_numeral get_validator_def Let_def split: prod.splits sum.splits)
      then show ?thesis by (intro exI [of _ 5]) simp
    qed
  qed
qed

lemma under_lock_alone:
  assumes "(case with_VALIDATION_LOCK (locked_statement env u m) w of
              (Inl e, w6) \<Rightarrow> (Inl e, w6)
            | (Inr _, w6) \<Rightarrow> run_checks env additional_checks u w6) = (r, w')"
  shows "run env (replicate 24 0) ([AtLock u m], False, w) = ([Finished r], False, w')"
proof -
  obtain rl w6 where l: "with_VALIDATION_LOCK (locked_statement env u m) w = (rl, w6)"
    by (cases "with_VALIDATION_LOCK (locked_statement env u m) w")
  from locked_alone [OF l] obtain k where k: "k \<le> 7"
    and run: "run env (replicate k 0) ([AtLock u m], False, w)
           = ([case rl of Inl e \<Rightarrow> Finished (Inl e) | Inr _ \<Rightarrow> AtChecks u additional_checks],
              False, w6)" by blast
  show ?thesis
  proof (cases rl)
    case (Inl e)
    with l assms have "r = Inl e" "w' = w6" by simp_all
    with run Inl have "run env (replicate k 0) ([AtLock u m], False, w) = ([Finished r], False, w')"
      by simp
    from run_pad [OF this] k show ?thesis by simp
  next
    case (Inr x)
    with l assms have c: "run_checks env additional_checks u w6 = (r, w')" by simp
    have "run env (replicate (k + 17) 0) ([AtLock u m], False, w)
        = run env (replicate 17 0) ([AtChecks u additional_checks], False, w6)"
      using run Inr by (simp add: replicate_add run_append)
    also have "\<dots> = ([Finished r], False, w')"
    proof -
      have "Suc (length additional_checks) = 17" by (simp add: additional_checks_def)
      with checks_alone [of env additional_checks u False w6] c show ?thesis
        by (simp only: fst_conv snd_conv)
    qed
    finally have "run env (replicate (k + 17) 0) ([AtLock u m], False, w)
        = ([Finished r], False, w')" .
    from run_pad [OF this] k show ?thesis by simp
  qed
qed

lemma validate_config_alone:
  "run env (replicate 28 0) ([AtUpgrade config], False, w)
     = ([Finished (fst (validate_config env config w))], False, snd (validate_config env config w))"
proof -
  obtain r w' where vc: "validate_config env config w = (r, w')"
    by (cases "validate_config env config w")
  have "run env (replicate 28 0) ([AtUpgrade config], False, w) = ([Finished r], False, w')"
  proof -
    obtain r1 s1 where up: "upgrade_config_dict_to_latest_version env config (objects w) = (r1, s1)"
      by (cases "upgrade_config_dict_to_latest_version env config (objects w)")
    show ?thesis
    proof (cases r1)
      case (Inl e)
      with up vc have "run env (replicate 1 0) ([AtUpgrade config], False, w)
          = ([Finished r], False, w')"
        by (auto simp: validate_config_def)
      from run_pad [OF this] show ?thesis by simp
    next
      case (Inr u)
      let ?w1 = "log (Upgrade config (Inr u)) (w\<lparr>objects := s1\<rparr>)"
      show ?thesis
      proof (cases "py_get (objects ?w1 u) MODEL_TYPE (PStr (MODEL_ECD env))")
        case (Inl e)
        with up \<open>r1 = Inr u\<close> vc have "run env (replicate 2 0) ([AtUpgrade config], False, w)
            = ([Finished r], False, w')"
          by (auto simp: validate_config_def eval_nat_numeral Let_def)
        from run_pad [OF this] show ?thesis by simp
      next
        case m: (Inr m)
        let ?w2 = "log (ReadModelType (Inr m)) ?w1"
        show ?thesis
        proof (cases "split_kwargs (objects ?w2 u)")
          case (Inl e)
          with up \<open>r1 = Inr u\<close> m vc have "run env (replicate 3 0) ([AtUpgrade config], False, w)
              = ([Finished r], False, w')"
            by (auto simp: validate_config_def eval_nat_numeral Let_def)
          from run_pad [OF this] show ?thesis by simp
        next
          case k: (Inr kwargs)
          let ?w3 = "log (ReadSplit (Inr kwargs)) ?w2"
          show ?thesis
          proof (cases "get_splitter env kwargs")
            case (Inl e)
            with up \<open>r1 = Inr u\<close> m k vc have "run env (replicate 3 0) ([AtUpgrade config], False, w)
                = ([Finished r], False, w')"
              by (auto simp: validate_config_def eval_nat_numeral Let_def)
            from run_pad [OF this] show ?thesis by simp
          next
            case sp: (Inr sp)
            let ?w4 = "log (GetSplitter kwargs None) ?w3"
            obtain r5 s5 where sv: "splitter_validate sp u (objects ?w4) = (r5, s5)"
              by (cases "splitter_validate sp u (objects ?w4)")
            show ?thesis
            proof (cases r5)
              case (Inl e)
              with up \<open>r1 = Inr u\<close> m k sp sv vc
              have "run env (replicate 4 0) ([AtUpgrade config], False, w)
                  = ([Finished r], False, w')"
                by (auto simp: validate_config_def eval_nat_numeral Let_def)
              from run_pad [OF this] show ?thesis by simp
            next
              case (Inr x)
              let ?w5 = "log (SplitterValidate u None) (?w4\<lparr>objects := s5\<rparr>)"
              from up \<open>r1 = Inr u\<close> m k sp sv Inr
              have p: "run env (replicate 4 0) ([AtUpgrade config], False, w)
                  = ([AtLock u m], False, ?w5)"
                by (auto simp: eval_nat_numeral Let_def)
              from up \<open>r1 = Inr u\<close> m k sp sv Inr vc
              have "(case with_VALIDATION_LOCK (locked_statement env u m) ?w5 of
                      (Inl e, w6) \<Rightarrow> (Inl e, w6)
                    | (Inr _, w6) \<Rightarrow> run_checks env additional_checks u w6) = (r, w')"
                by (simp add: validate_config_def Let_def)
              from under_lock_alone [OF this]
              have "run env (replicate 24 0) ([AtLock u m], False, ?w5) = ([Finished r], False, w')" .
              moreover have "replicate 28 (0::nat) = replicate 4 0 @ replicate 24 0"
                by (simp add: replicate_add [symmetric])
              ultimately show ?thesis using p by (simp only: run_append)
            qed
          qed
        qed
      qed
    qed
  qed
  with vc show ?thesis by simp
qed

subsection \<open>Threads: the validator cache under any schedule\<close>

lemma get_schema_unrelated:
  assumes "get_schema env a w = (r, w')"
  shows "validator_cache w' = validator_cache w" and "classes_built w' = classes_built w"
    and "\<exists>es. trace w' = trace w @ es \<and> validators_of es = []"
proof -
  from get_schema_effect [OF assms] obtain ps c where
    w': "w' = w\<lparr>trace := trace w @ GetSchema a # ps, schema_cache := c\<rparr>"
    and ps: "\<forall>e\<in>set ps. kind e = SchemaAcquisition" by blast
  from w' show "validator_cache w' = validator_cache w" "classes_built w' = classes_built w"
    by simp_all
  from ps have "validators_of (GetSchema a # ps) = []" by (simp add: validators_of_none)
  with w' show "\<exists>es. trace w' = trace w @ es \<and> validators_of es = []" by simp
qed

lemma step_warm:
  assumes c: "validator_cache w = [((), cls)]" and s: "settled cls t"
    and st: "step env t locked w = (t', locked', w')"
  shows "validator_cache w' = [((), cls)] \<and> classes_built w' = classes_built w
       \<and> settled cls t'
       \<and> (\<exists>es. trace w' = trace w @ es \<and> (\<forall>v\<in>set (validators_of es). v = cls))"
proof (cases t)
  case (Caller k)
  with c s st show ?thesis
    by (cases k) (auto simp: Let_def lru_touch_def)
next
  case (AtGetSchema u m)
  obtain r w1 where g: "get_schema env (Keyword m) w = (r, w1)"
    by (cases "get_schema env (Keyword m) w")
  from get_schema_unrelated [OF g] c g st AtGetSchema show ?thesis
    by (cases r) auto
next
  case (AtGetValidator u sc k)
  with c s st show ?thesis
    by (cases k) (auto simp: Let_def lru_touch_def split: prod.splits)
next
  case (AtChecks u cs)
  with c s st show ?thesis
    by (cases cs) (auto split: prod.splits sum.splits)
qed (use c s st in \<open>auto simp: Let_def split: prod.splits sum.splits if_splits\<close>)

lemma schedule_step_warm:
  assumes "warm cls n b s"
  shows "warm cls n b (schedule_step env i s)"
proof -
  obtain ts locked w where s: "s = (ts, locked, w)" by (cases s)
  show ?thesis
  proof (cases "i < length ts")
    case False
    with assms s show ?thesis by simp
  next
    case True
    obtain t' locked' w' where st: "step env (ts ! i) locked w = (t', locked', w')"
      by (cases "step env (ts ! i) locked w")
    from assms s have c: "validator_cache w = [((), cls)]" and b: "classes_built w = b"
      and a: "\<forall>t\<in>set ts. settled cls t" and n: "n \<le> length (trace w)"
      and v: "\<forall>c\<in>set (validators_of (drop n (trace w))). c = cls"
      by (simp_all add: warm_def)
    from a True have "settled cls (ts ! i)" by simp
    from step_warm [OF c this st] obtain es where
      1: "validator_cache w' = [((), cls)]" "classes_built w' = classes_built w" "settled cls t'"
      and es: "trace w' = trace w @ es" "\<forall>v\<in>set (validators_of es). v = cls" by blast
    from a 1(3) have "\<forall>t\<in>set (ts[i := t']). settled cls t"
      using set_update_subset_insert [of ts i t'] by auto
    moreover from n es v have "n \<le> length (trace w')"
      "\<forall>c\<in>set (validators_of (drop n (trace w'))). c = cls"
      by (auto simp: validators_of_append)
    ultimately show ?thesis using s True st 1 b by (simp add: warm_def)
  qed
qed

lemma run_warm: "warm cls n b s \<Longrightarrow> warm cls n b (run env sched s)"
  by (induction sched arbitrary: s) (simp_all add: schedule_step_warm)

lemma step_cold:
  assumes c: "validator_cache w = []" and v: "validating t" and h: "\<not> holds_class t"
    and nc: "\<not> computed t"
    and st: "step env t locked w = (t', locked', w')"
  shows "validator_cache w' = [] \<and> validating t' \<and> \<not> holds_class t'
       \<and> (\<exists>es. trace w' = trace w @ es \<and> validators_of es = [])
       \<and> classes_built w' = classes_built w + (if computed t' then 1 else 0)
       \<and> (computed t' \<longrightarrow> inside t)
       \<and> (inside t' = inside t \<and> locked' = locked
          \<or> \<not> inside t \<and> \<not> locked \<and> inside t' \<and> locked'
          \<or> inside t \<and> \<not> inside t' \<and> \<not> locked')"
proof (cases t)
  case (Caller k)
  with v show ?thesis by simp
next
  case (AtGetSchema u m)
  obtain r w1 where g: "get_schema env (Keyword m) w = (r, w1)"
    by (cases "get_schema env (Keyword m) w")
  from get_schema_unrelated [OF g] c g st AtGetSchema show ?thesis
    by (cases r) auto
next
  case (AtGetValidator u sc k)
  with c h nc st show ?thesis
    by (cases k) (auto simp: Let_def get_validator_wrapped_def extend_def split: prod.splits)
next
  case (AtChecks u cs)
  with c st show ?thesis
    by (cases cs) (auto split: prod.splits sum.splits)
qed (use c st in \<open>auto simp: Let_def split: prod.splits sum.splits if_splits\<close>)

lemma step_store:
  assumes c: "validator_cache w = []" and t: "t = AtGetValidator u sc (Computed cls)"
    and st: "step env t locked w = (t', locked', w')"
  shows "validator_cache w' = [((), cls)] \<and> classes_built w' = classes_built w
       \<and> settled cls t' \<and> trace w' = trace w"
  using assms by (auto simp: lru_add_def)

lemma schedule_step_cold:
  assumes "cold n b s"
  shows "cold n b (schedule_step env i s) \<or> (\<exists>cls. warm cls n (Suc b) (schedule_step env i s))"
proof -
  obtain ts locked w where s: "s = (ts, locked, w)" by (cases s)
  from assms s have c: "validator_cache w = []" and n: "n \<le> length (trace w)"
    and vs: "validators_of (drop n (trace w)) = []"
    and a: "\<forall>t\<in>set ts. validating t \<and> \<not> holds_class t"
    and l: "locked \<longleftrightarrow> (\<exists>i<length ts. inside (ts ! i))"
    and x: "\<forall>i<length ts. \<forall>j<length ts. inside (ts ! i) \<longrightarrow> inside (ts ! j) \<longrightarrow> i = j"
    and b: "classes_built w = b + (if \<exists>i<length ts. computed (ts ! i) then 1 else 0)"
    by (simp_all add: cold_def)
  have ci: "computed t \<Longrightarrow> inside t" for t by (cases t rule: computed.cases) simp_all
  show ?thesis
  proof (cases "i < length ts")
    case False
    with assms s show ?thesis by simp
  next
    case True
    obtain t' locked' w' where st: "step env (ts ! i) locked w = (t', locked', w')"
      by (cases "step env (ts ! i) locked w")
    with s True have ss: "schedule_step env i s = (ts[i := t'], locked', w')" by simp
    from a True have ti: "validating (ts ! i)" "\<not> holds_class (ts ! i)" by simp_all
    show ?thesis
    proof (cases "computed (ts ! i)")
      case True
      then obtain u sc cls where t: "ts ! i = AtGetValidator u sc (Computed cls)"
        by (cases "ts ! i" rule: computed.cases) simp_all
      from step_store [OF c t st] have 1: "validator_cache w' = [((), cls)]"
        "classes_built w' = classes_built w" "settled cls t'" "trace w' = trace w" by simp_all
      from True \<open>i < length ts\<close> b have 2: "classes_built w = Suc b" by auto
      have "settled cls (ts ! j)" if j: "j < length ts" "j \<noteq> i" for j
      proof -
        from x j \<open>i < length ts\<close> ci [OF True] have "\<not> inside (ts ! j)" by blast
        moreover from a j have "validating (ts ! j)" by simp
        ultimately show ?thesis by (cases "ts ! j") simp_all
      qed
      with 1(3) \<open>i < length ts\<close> have "\<forall>t\<in>set (ts[i := t']). settled cls t"
        by (auto simp: in_set_conv_nth nth_list_update)
      with 1 2 n vs have "warm cls n (Suc b) (ts[i := t'], locked', w')"
        by (simp add: warm_def)
      with ss show ?thesis by auto
    next
      case False
      from step_cold [OF c ti False st] obtain es where
        1: "validator_cache w' = []" "validating t'" "\<not> holds_class t'"
        and es: "trace w' = trace w @ es" "validators_of es = []"
        and cb: "classes_built w' = classes_built w + (if computed t' then 1 else 0)"
        and cin: "computed t' \<longrightarrow> inside (ts ! i)"
        and lk: "inside t' = inside (ts ! i) \<and> locked' = locked
          \<or> \<not> inside (ts ! i) \<and> \<not> locked \<and> inside t' \<and> locked'
          \<or> inside (ts ! i) \<and> \<not> inside t' \<and> \<not> locked'" by blast
      from a 1 have a': "\<forall>t\<in>set (ts[i := t']). validating t \<and> \<not> holds_class t"
        using set_update_subset_insert [of ts i t'] by auto
      from n es vs have n': "n \<le> length (trace w')" "validators_of (drop n (trace w')) = []"
        by (simp_all add: validators_of_append)
      from l x lk \<open>i < length ts\<close>
      have l': "locked' \<longleftrightarrow> (\<exists>j<length (ts[i := t']). inside (ts[i := t'] ! j))"
        by (auto simp: nth_list_update)
      from l x lk \<open>i < length ts\<close>
      have x': "\<forall>j<length (ts[i := t']). \<forall>k<length (ts[i := t']).
          inside (ts[i := t'] ! j) \<longrightarrow> inside (ts[i := t'] ! k) \<longrightarrow> j = k"
        by (auto simp: nth_list_update)
      have b': "classes_built w' = b + (if \<exists>j<length (ts[i := t']). computed (ts[i := t'] ! j) then 1 else 0)"
      proof (cases "computed t'")
        case True
        have "\<not> computed (ts ! j)" if j: "j < length ts" for j
        proof (cases "j = i")
          case True
          with \<open>\<not> computed (ts ! i)\<close> show ?thesis by simp
        next
          case False
          from cin \<open>computed t'\<close> have "inside (ts ! i)" by simp
          with x j \<open>i < length ts\<close> False have "\<not> inside (ts ! j)" by blast
          with ci show ?thesis by blast
        qed
        with b have "classes_built w = b" by auto
        moreover from True \<open>i < length ts\<close>
        have "\<exists>j<length (ts[i := t']). computed (ts[i := t'] ! j)"
          by (auto intro: exI [of _ i])
        ultimately show ?thesis using cb True by simp
      next
        case False
        with \<open>\<not> computed (ts ! i)\<close> \<open>i < length ts\<close>
        have "(\<exists>j<length (ts[i := t']). computed (ts[i := t'] ! j))
            \<longleftrightarrow> (\<exists>j<length ts. computed (ts ! j))"
          by (auto simp: nth_list_update split: if_splits)
        with b cb False show ?thesis by simp
      qed
      from 1(1) n' a' l' x' b' have "cold n b (ts[i := t'], locked', w')"
        by (simp add: cold_def)
      with ss show ?thesis by simp
    qed
  qed
qed

lemma run_cold:
  "cold n b s \<Longrightarrow> cold n b (run env sched s) \<or> (\<exists>cls. warm cls n (Suc b) (run env sched s))"
proof (induction sched arbitrary: s)
  case Nil
  then show ?case by simp
next
  case (Cons i sched)
  from schedule_step_cold [OF Cons.prems, of env i] show ?case
  proof (elim disjE exE)
    assume "cold n b (schedule_step env i s)"
    from Cons.IH [OF this] show ?thesis by simp
  next
    fix cls
    assume "warm cls n (Suc b) (schedule_step env i s)"
    from run_warm [OF this, of env sched] show ?thesis by auto
  qed
qed

lemma fresh_simps:
  assumes "fresh t"
  shows "settled cls t" and "\<not> inside t" and "\<not> computed t" and "\<not> holds_class t"
  using assms by (cases t rule: fresh.cases; simp)+

lemma classes_returned_settled:
  "\<forall>t\<in>set ts. settled cls t \<Longrightarrow> \<forall>c\<in>set (classes_returned ts). c = cls"
  by (induction ts rule: classes_returned.induct) auto

lemma classes_returned_validating:
  "\<forall>t\<in>set ts. validating t \<Longrightarrow> classes_returned ts = []"
  by (induction ts rule: classes_returned.induct) auto

lemma first_call_alone:
  assumes c: "validator_cache w = []" and i: "i < length ts" "ts ! i = Caller Lookup"
    and f: "\<forall>t\<in>set ts. fresh t"
  shows "\<exists>cls. warm cls (length (trace w)) (Suc (classes_built w)) (run env [i, i, i] (ts, locked, w))"
proof -
  let ?cls = "\<lparr>cls_id = classes_built w,
      TYPE_CHECKER = redefine (Draft7Validator_TYPE_CHECKER env) ''array'' custom_is_array\<rparr>"
  from c i have r: "run env [i, i, i] (ts, locked, w) =
      (ts[i := Caller (Returned ?cls)], locked,
       w\<lparr>trace := trace w @ [GetValidator, Extend (classes_built w)],
          classes_built := Suc (classes_built w), validator_cache := [((), ?cls)]\<rparr>)"
    by (simp add: Let_def get_validator_wrapped_def extend_def lru_add_def log_def)
  from f have "\<forall>t\<in>set ts. settled ?cls t" by (simp add: fresh_simps)
  then have "\<forall>t\<in>set (ts[i := Caller (Returned ?cls)]). settled ?cls t"
    using set_update_subset_insert [of ts i "Caller (Returned ?cls)"] by auto
  then have "warm ?cls (length (trace w)) (Suc (classes_built w)) (run env [i, i, i] (ts, locked, w))"
    unfolding r by (simp add: warm_def)
  then show ?thesis ..
qed

lemma warm_final:
  assumes "warm cls (length (trace w)) b (ts', locked', w')"
  shows "(\<forall>c\<in>set (classes_returned ts' @ validators_of (emitted w w')).
            validator_cache w' = [((), c)])
       \<and> classes_built w' = b \<and> validator_cache w' = [((), cls)]"
  using assms classes_returned_settled [of ts' cls]
  by (auto simp: warm_def emitted_def)

text \<open>
  Whatever the threads and the schedule, a call builds at most one class.
\<close>

lemma step_may_build:
  assumes "step env t locked w = (t', locked', w')"
  shows "classes_built w' + may_build t' \<le> classes_built w + may_build t"
proof (cases t)
  case (Caller k)
  with assms show ?thesis
    by (cases k) (auto simp: Let_def get_validator_wrapped_def extend_def split: option.splits)
next
  case (AtGetSchema u m)
  obtain r w1 where g: "get_schema env (Keyword m) w = (r, w1)"
    by (cases "get_schema env (Keyword m) w")
  from get_schema_unrelated(2) [OF g] g assms AtGetSchema show ?thesis
    by (cases r) auto
next
  case (AtGetValidator u sc k)
  with assms show ?thesis
    by (cases k) (auto simp: Let_def get_validator_wrapped_def extend_def
        split: option.splits prod.splits)
next
  case (AtChecks u cs)
  with assms show ?thesis
    by (cases cs) (auto split: prod.splits sum.splits)
qed (use assms in \<open>auto simp: Let_def split: prod.splits sum.splits if_splits\<close>)

lemma sum_list_map_update:
  "i < length ts \<Longrightarrow>
   sum_list (map f (ts[i := t])) + f (ts ! i) = sum_list (map f ts) + (f t :: nat)"
proof (induction ts arbitrary: i)
  case Nil
  then show ?case by simp
next
  case (Cons a ts)
  show ?case
  proof (cases i)
    case 0
    then show ?thesis by simp
  next
    case (Suc j)
    with Cons.prems have "j < length ts" by simp
    from Cons.IH [OF this] Suc show ?thesis by simp
  qed
qed

lemma schedule_step_may_build:
  assumes "schedule_step env i (ts, locked, w) = (ts', locked', w')"
  shows "classes_built w' + sum_list (map may_build ts')
       \<le> classes_built w + sum_list (map may_build ts)"
proof (cases "i < length ts")
  case False
  with assms show ?thesis by simp
next
  case True
  obtain t' l1 w1 where st: "step env (ts ! i) locked w = (t', l1, w1)"
    by (cases "step env (ts ! i) locked w")
  with assms True have eq: "ts' = ts[i := t']" "w' = w1" by simp_all
  from step_may_build [OF st] sum_list_map_update [OF True, of may_build t']
  show ?thesis unfolding eq by linarith
qed

lemma run_may_build:
  "run env sched (ts, locked, w) = (ts', locked', w') \<Longrightarrow>
   classes_built w' + sum_list (map may_build ts')
     \<le> classes_built w + sum_list (map may_build ts)"
proof (induction sched arbitrary: ts locked w)
  case Nil
  then show ?case by simp
next
  case (Cons i sched)
  obtain ts1 l1 w1 where s: "schedule_step env i (ts, locked, w) = (ts1, l1, w1)"
    by (cases "schedule_step env i (ts, locked, w)")
  from Cons.prems s have "run env sched (ts1, l1, w1) = (ts', locked', w')" by simp
  from Cons.IH [OF this] schedule_step_may_build [OF s] show ?case by linarith
qed

lemma may_build_le: "sum_list (map may_build ts) \<le> length ts"
proof (induction ts)
  case Nil
  show ?case by simp
next
  case (Cons t ts)
  have "may_build t \<le> 1" by (cases t rule: may_build.cases) simp_all
  with Cons show ?case by simp
qed

lemma one_class_per_call:
  assumes "run env sched (ts, locked, w) = (ts', locked', w')"
  shows "classes_built w' \<le> classes_built w + length ts"
  using run_may_build [OF assms] may_build_le [of ts] by linarith

subsection \<open>The store\<close>

lemma run_checks_objects:
  assumes "\<forall>c. changes_only_argument (auxiliary_validations env c)" "a \<noteq> u"
  shows "objects (snd (run_checks env cs u w)) a = objects w a"
proof (induction cs arbitrary: w)
  case Nil
  show ?case by simp
next
  case (Cons c cs)
  obtain r1 s1 where c1: "auxiliary_validations env c u (objects w) = (r1, s1)"
    by (cases "auxiliary_validations env c u (objects w)")
  with assms have s1: "s1 a = objects w a"
    unfolding changes_only_argument_def by (metis snd_conv)
  show ?case
  proof (cases r1)
    case (Inl e)
    with c1 s1 show ?thesis by simp
  next
    case (Inr x)
    with c1 s1 Cons.IH [of "log (Check c u None) (w\<lparr>objects := s1\<rparr>)"] show ?thesis by simp
  qed
qed

lemma locked_statement_objects:
  assumes "\<forall>schema cls. changes_only_argument (\<lambda>u. validate env u schema cls)" "a \<noteq> u"
  shows "objects (snd (with_VALIDATION_LOCK (locked_statement env u m) w)) a = objects w a"
proof -
  have v: "snd (validate env u schema cls s) a = s a" for schema cls s
    using assms unfolding changes_only_argument_def by blast
  obtain r1 w1 where g: "get_schema env (Keyword m) (log LockAcquire w) = (r1, w1)"
    by (cases "get_schema env (Keyword m) (log LockAcquire w)")
  with get_schema_frame(1) [of env "Keyword m" "log LockAcquire w"]
  have o1: "objects w1 = objects w" by simp
  show ?thesis
  proof (cases r1)
    case (Inl e)
    with g o1 show ?thesis by (simp add: with_VALIDATION_LOCK_def locked_statement_def)
  next
    case (Inr schema)
    obtain cls w2 where gv: "get_validator env w1 = (cls, w2)" by (cases "get_validator env w1")
    with get_validator_frame(1) [of env w1] o1 have o2: "objects w2 = objects w" by simp
    from g Inr gv o2 v [of schema cls "objects w"] show ?thesis
      by (simp add: with_VALIDATION_LOCK_def locked_statement_def split_beta)
  qed
qed

lemma validate_config_objects:
  assumes up: "returns_new_value (upgrade_config_dict_to_latest_version env)"
    and conf: "collaborators_confined env"
    and run: "validate_config env config w = (r, w')"
  shows "objects w' config = objects w config"
proof -
  obtain r1 s1 where u1: "upgrade_config_dict_to_latest_version env config (objects w) = (r1, s1)"
    by (cases "upgrade_config_dict_to_latest_version env config (objects w)")
  with up have s1: "s1 config = objects w config" and ne: "r1 \<noteq> Inr config"
    unfolding returns_new_value_def by (auto split: prod.splits)
  from conf have sv: "snd (splitter_validate sp u s) a = s a"
    if "get_splitter env kwargs = Inr sp" "a \<noteq> u" for kwargs sp u s a
    using that unfolding collaborators_confined_def changes_only_argument_def by blast
  from conf have lk: "objects (snd (with_VALIDATION_LOCK (locked_statement env u m) wa)) a = objects wa a"
    if "a \<noteq> u" for u m wa a
    using that locked_statement_objects unfolding collaborators_confined_def by blast
  from conf have ch: "objects (snd (run_checks env cs u wa)) a = objects wa a"
    if "a \<noteq> u" for u cs wa a
    using that run_checks_objects unfolding collaborators_confined_def by blast
  show ?thesis
  proof (cases r1)
    case (Inl e)
    with run u1 s1 show ?thesis by (auto simp: validate_config_def)
  next
    case (Inr u)
    with ne have neq: "config \<noteq> u" by auto
    note u1' = u1 [unfolded Inr]
    show ?thesis
    proof (cases "py_get (s1 u) MODEL_TYPE (PStr (MODEL_ECD env))")
      case (Inl e)
      with run u1' s1 show ?thesis by (auto simp: validate_config_def Let_def)
    next
      case m: (Inr m)
      show ?thesis
      proof (cases "split_kwargs (s1 u)")
        case (Inl e)
        with run u1' m s1 show ?thesis by (auto simp: validate_config_def Let_def)
      next
        case k: (Inr k)
        show ?thesis
        proof (cases "get_splitter env k")
          case (Inl e)
          with run u1' m k s1 show ?thesis by (auto simp: validate_config_def Let_def)
        next
          case sp: (Inr sp)
          obtain r5 s5 where v5: "splitter_validate sp u s1 = (r5, s5)"
            by (cases "splitter_validate sp u s1")
          with sv [OF sp neq, where s = s1] s1 have s5: "s5 config = objects w config" by simp
          show ?thesis
          proof (cases r5)
            case (Inl e)
            with run u1' m k sp v5 s5 show ?thesis by (auto simp: validate_config_def Let_def)
          next
            case ok5: (Inr x5)
            define w5 where "w5 = log (SplitterValidate u None)
              (log (GetSplitter k None) (log (ReadSplit (Inr k)) (log (ReadModelType (Inr m))
                (log (Upgrade config (Inr u)) (w\<lparr>objects := s1\<rparr>))))\<lparr>objects := s5\<rparr>)"
            have o5: "objects w5 config = objects w config" using s5 by (simp add: w5_def)
            obtain r6 w6 where l6: "with_VALIDATION_LOCK (locked_statement env u m) w5 = (r6, w6)"
              by (cases "with_VALIDATION_LOCK (locked_statement env u m) w5")
            with lk [OF neq, where m = m and wa = w5] o5 have o6: "objects w6 config = objects w config" by simp
            from run u1' m k sp v5 ok5 l6
            have tail: "(case r6 of Inl e \<Rightarrow> (Inl e, w6)
                          | Inr _ \<Rightarrow> run_checks env additional_checks u w6) = (r, w')"
              by (simp add: validate_config_def Let_def w5_def)
            show ?thesis
            proof (cases r6)
              case (Inl e)
              with tail o6 show ?thesis by simp
            next
              case (Inr x6)
              with tail have "run_checks env additional_checks u w6 = (r, w')" by simp
              with ch [OF neq, where cs = additional_checks and wa = w6] o6 show ?thesis by simp
            qed
          qed
        qed
      qed
    qed
  qed
qed

lemma upgrade_new:
  assumes "returns_new_value (upgrade_config_dict_to_latest_version env)"
    and "upgrade_config_dict_to_latest_version env config s = (Inr u, s1)"
  shows "u \<noteq> config"
  using assms unfolding returns_new_value_def by (auto split: prod.splits)

subsection \<open>The example runs\<close>

lemma emitted_start: "emitted (start_world doc) w' = trace w'"
  by (simp add: emitted_def start_world_def)

lemma example_run_valid:
  "case validate_config example_env 0 (start_world doc_valid) of
     (r, w') \<Rightarrow> r = Inr () \<and>
       trace w' = example_prefix @ example_locked None @
         map (\<lambda>c. Check c (Suc 0) None) additional_checks"
  by (simp add: example_defs key_defs run_defs dict_keys_def)

lemma example_run_two_violations:
  "case validate_config example_env 0 (start_world doc_two_violations) of
     (r, w') \<Rightarrow> r = Inl (Raised ''ValidationError'') \<and>
       trace w' = example_prefix @ example_locked (Some (Raised ''ValidationError''))"
  by (simp add: example_defs key_defs run_defs dict_keys_def doc_two_violations_def)

lemma example_run_duplicate_names:
  "case validate_config example_env 0 (start_world doc_duplicate_names) of
     (r, w') \<Rightarrow> r = Inl (Raised ''ConfigValidationError'') \<and>
       trace w' = example_prefix @ example_locked None @
         [Check check_validation_metrics_are_valid (Suc 0) None,
          Check check_feature_names_unique (Suc 0) (Some (Raised ''ConfigValidationError''))]"
  by (simp add: example_defs key_defs run_defs dict_keys_def doc_duplicate_names_def)

lemma example_run_bad_split:
  "case validate_config example_env 0 (start_world doc_bad_split) of
     (r, w') \<Rightarrow> r = Inl (Raised ''ValueError'') \<and>
       trace w' =
         [Upgrade 0 (Inr (Suc 0)), ReadModelType (Inr (PStr ''ecd'')),
          ReadSplit (Inr [(''type'', PStr ''stratify'')]),
          GetSplitter [(''type'', PStr ''stratify'')] None,
          SplitterValidate (Suc 0) (Some (Raised ''ValueError''))]"
  by (simp add: example_defs key_defs run_defs dict_keys_def doc_bad_split_def)

lemma example_run_overwriting:
  "case validate_config example_env_overwriting 0 (start_world doc_valid) of
     (r, w') \<Rightarrow> r = Inr () \<and> objects w' (Suc 0) = PNone"
  by (simp add: example_defs key_defs run_defs dict_keys_def example_env_overwriting_def)

lemma example_contracts:
  "returns_new_value example_upgrade"
  "changes_only_argument (\<lambda>u. example_validate u schema cls)"
  "example_get_splitter kwargs = Inr sp \<Longrightarrow> changes_only_argument (splitter_validate sp)"
proof -
  show "returns_new_value example_upgrade"
    by (simp add: returns_new_value_def example_upgrade_def)
  show "changes_only_argument (\<lambda>u. example_validate u schema cls)"
    by (auto simp: changes_only_argument_def example_validate_def
        split: sum.splits pyval.splits)
  show "changes_only_argument (splitter_validate sp)" if "example_get_splitter kwargs = Inr sp"
    using that
    by (auto simp: changes_only_argument_def example_get_splitter_def
        split: option.splits if_splits)
qed

lemma example_get_schema:
  "fst (get_schema example_env (Positional (PStr m)) (start_world doc)) = Inr example_schema"
  by (simp add: example_defs key_defs run_defs)

lemma example_run_threads:
  "case run example_env example_schedule (example_threads, False, start_world doc_valid) of
     (ts', locked', w') \<Rightarrow>
       ts' = [Finished (Inr ()), Finished (Inr ())] \<and> \<not> locked'
       \<and> length (validators_of (trace w')) = 2
       \<and> validator_cache w' = [((), example_cls)]"
  by (simp add: example_schedule_def example_threads_def eval_nat_numeral example_defs key_defs
      run_defs dict_keys_def)

lemma example_run_threads_direct:
  "case run example_env example_schedule_direct
          (example_threads_direct, False, start_world doc_valid) of
     (ts', locked', w') \<Rightarrow>
       ts' = [Caller (Returned example_cls), Finished (Inr ()), Caller (Returned example_cls)]
       \<and> length (validators_of (trace w')) = 1
       \<and> validator_cache w' = [((), example_cls)]"
  by (simp add: example_schedule_direct_def example_threads_direct_def eval_nat_numeral
      example_defs key_defs run_defs dict_keys_def)

text \<open>
  Without the contract of the upgrader the document of the caller can change: with an
  upgrader that returns its argument, the overwriting checks overwrite it.
\<close>

lemma example_run_aliasing:
  "\<not> returns_new_value (upgrade_config_dict_to_latest_version example_env_aliasing)
   \<and> collaborators_confined example_env_aliasing
   \<and> objects (snd (validate_config example_env_aliasing 0 (start_world doc_valid))) 0 = PNone"
proof -
  have 1: "\<not> returns_new_value (upgrade_config_dict_to_latest_version example_env_aliasing)"
    by (simp add: returns_new_value_def example_env_aliasing_def example_env_overwriting_def
        example_env_def)
  have 2: "collaborators_confined example_env_aliasing"
    using example_contracts(2,3)
    by (auto simp: collaborators_confined_def example_env_aliasing_def
        example_env_overwriting_def example_env_def changes_only_argument_def)
  have 3: "objects (snd (validate_config example_env_aliasing 0 (start_world doc_valid))) 0 = PNone"
    by (simp add: example_defs key_defs run_defs dict_keys_def example_env_aliasing_def
        example_env_overwriting_def)
  from 1 2 3 show ?thesis by simp
qed

section \<open>The validation orchestrator\<close>

text \<open>
  Claim C1. Whenever the structural validator raises during a run of
  \<^verbatim>\<open>validate_config\<close>, the exception it raised is the outcome of the run and no
  semantic check has been invoked; and no semantic check is ever invoked before the
  structural validator has returned normally. So for a document with both a
  structural and a semantic violation the structural one is reported.
\<close>

theorem structural_violation_reported_first:
  assumes "validate_config env config w = (r, w')"
  shows "(\<forall>u s v e. Validate u s v (Some e) \<in> set (emitted w w') \<longrightarrow>
            r = Inl e \<and> checks_of (emitted w w') = [])
       \<and> preceded passed_structural (in_stages [Semantic]) (emitted w w')"
  using assms
proof (cases rule: validate_config_run)
  case (get_schema_raises u s1 m k e ps wa w1)
  then show ?thesis
    by (auto simp: preceded_append checks_of_append checks_of_none intro!: preceded_none)
next
  case (validate_raises u s1 m k e ps xs s v wa w1 w2)
  then show ?thesis
    by (auto simp: preceded_append checks_of_append checks_of_none intro!: preceded_none)
next
  case (checks_run u s1 m k ps xs s v n wa w1 w2)
  then show ?thesis
    by (auto simp: preceded_append checks_of_append checks_of_none  intro!: preceded_none
        split: sum.splits)
qed auto

theorem structural_violation_reported_first_witness:
  "fst (auxiliary_validations example_env check_feature_names_unique 0
          (objects (start_world doc_two_violations)))
     = Inl (Raised ''ConfigValidationError'')
   \<and> fst (validate_config example_env 0 (start_world doc_two_violations))
     = Inl (Raised ''ValidationError'')
   \<and> checks_of (emitted (start_world doc_two_violations)
        (snd (validate_config example_env 0 (start_world doc_two_violations)))) = []"
proof -
  let ?w = "start_world doc_two_violations"
  obtain r w' where run: "validate_config example_env 0 ?w = (r, w')"
    by (cases "validate_config example_env 0 ?w")
  with example_run_two_violations
  have "emitted ?w w' = example_prefix @ example_locked (Some (Raised ''ValidationError''))"
    by (simp add: emitted_start)
  then have "Validate (Suc 0) example_schema example_cls (Some (Raised ''ValidationError''))
      \<in> set (emitted ?w w')"
    by (simp add: example_locked_def)
  with structural_violation_reported_first [OF run]
  have "r = Inl (Raised ''ValidationError'') \<and> checks_of (emitted ?w w') = []" by blast
  moreover have "fst (auxiliary_validations example_env check_feature_names_unique 0 (objects ?w))
      = Inl (Raised ''ConfigValidationError'')"
    by (simp add: example_defs key_defs doc_two_violations_def)
  ultimately show ?thesis using run by simp
qed

text \<open>
  Claim C2. The semantic checks of a run are an initial segment of the fixed list of
  sixteen, in its order, each on the upgraded document. Every check but the last
  invoked returned normally; a check that raises is the last one invoked, and its
  exception is the outcome of the run. The run returns normally, with no value,
  exactly when all sixteen checks were invoked and none raised. The first check is
  invoked as soon as structural validation has passed.
\<close>

theorem semantic_checks_fixed_order:
  assumes "validate_config env config w = (r, w')"
  shows "prefix (map fst (checks_of (emitted w w'))) additional_checks
       \<and> (\<forall>(c, a, x)\<in>set (butlast (checks_of (emitted w w'))). x = None)
       \<and> (\<forall>c a e. (c, a, Some e) \<in> set (checks_of (emitted w w')) \<longrightarrow> r = Inl e)
       \<and> (r = Inr () \<longleftrightarrow>
            map fst (checks_of (emitted w w')) = additional_checks
            \<and> (\<forall>(c, a, x)\<in>set (checks_of (emitted w w')). x = None))
       \<and> ((\<exists>u s v. Validate u s v None \<in> set (emitted w w')) \<longrightarrow> checks_of (emitted w w') \<noteq> [])
       \<and> (\<forall>(c, a, x)\<in>set (checks_of (emitted w w')). Upgrade config (Inr a) \<in> set (emitted w w'))
       \<and> additional_checks =
           [check_validation_metrics_are_valid, check_feature_names_unique,
            check_tied_features_are_valid, check_dependent_features, check_training_runway,
            check_gbm_horovod_incompatibility, check_gbm_feature_types,
            check_ray_backend_in_memory_preprocessing,
            check_sequence_concat_combiner_requirements,
            check_tabtransformer_combiner_requirements, check_comparator_combiner_requirements,
            check_class_balance_preprocessing, check_sampling_exclusivity,
            check_hyperopt_search_space, check_hyperopt_metric_targets,
            check_gbm_single_output_feature]"
  using assms
proof (cases rule: validate_config_run)
  case (get_schema_raises u s1 m k e ps wa w1)
  then show ?thesis
    by (auto simp: checks_of_append checks_of_none additional_checks_def)
next
  case (validate_raises u s1 m k e ps xs s v wa w1 w2)
  then show ?thesis
    by (auto simp: checks_of_append checks_of_none additional_checks_def)
next
  case (checks_run u s1 m k ps xs s v n wa w1 w2)
  have len: "length additional_checks = 16" by (simp add: additional_checks_def)
  have c: "checks_of (emitted w w') = map (\<lambda>c. (c, u, None)) (take n additional_checks) @
      (case r of Inl e \<Rightarrow> [(additional_checks ! n, u, Some e)] | Inr _ \<Rightarrow> [])"
    using checks_run by (simp add: checks_of_append checks_of_none checks_of_passed split: sum.splits)
  have up: "Upgrade config (Inr u) \<in> set (emitted w w')" using checks_run by simp
  have va: "Validate u s v None \<in> set (emitted w w')" using checks_run by simp
  show ?thesis
  proof (cases r)
    case (Inl e)
    with checks_run(7) have n: "n < length additional_checks" by simp
    then have t: "take n additional_checks @ [additional_checks ! n] = take (Suc n) additional_checks"
      by (simp add: take_Suc_conv_app_nth)
    from c Inl have c': "checks_of (emitted w w') =
        map (\<lambda>c. (c, u, None)) (take n additional_checks) @ [(additional_checks ! n, u, Some e)]"
      by simp
    have "map fst (checks_of (emitted w w')) = take (Suc n) additional_checks"
      unfolding c' using t by (simp add: comp_def)
    then have p: "prefix (map fst (checks_of (emitted w w'))) additional_checks"
      by (simp add: take_is_prefix)
    have b: "\<forall>(c, a, x)\<in>set (butlast (checks_of (emitted w w'))). x = None"
      unfolding c' by (auto simp: butlast_append)
    have s: "\<forall>c a e'. (c, a, Some e') \<in> set (checks_of (emitted w w')) \<longrightarrow> r = Inl e'"
      unfolding c' using Inl by auto
    have ne: "\<not> (\<forall>(c, a, x)\<in>set (checks_of (emitted w w')). x = None)"
      unfolding c' by auto
    have a: "\<forall>(c, a, x)\<in>set (checks_of (emitted w w')). Upgrade config (Inr a) \<in> set (emitted w w')"
      using up unfolding c' by auto
    have nn: "checks_of (emitted w w') \<noteq> []" unfolding c' by simp
    from p b s ne a nn Inl show ?thesis by (simp add: additional_checks_def)
  next
    case (Inr x)
    with checks_run(7) have n: "n = length additional_checks" by simp
    from c Inr n have c': "checks_of (emitted w w') = map (\<lambda>c. (c, u, None)) additional_checks"
      by simp
    have m: "map fst (checks_of (emitted w w')) = additional_checks"
      unfolding c' by (simp add: comp_def)
    have b: "\<forall>(c, a, x)\<in>set (checks_of (emitted w w')). x = None"
      unfolding c' by auto
    then have b': "\<forall>(c, a, x)\<in>set (butlast (checks_of (emitted w w'))). x = None"
      by (auto dest: in_set_butlastD)
    have s: "\<forall>c a e'. (c, a, Some e') \<in> set (checks_of (emitted w w')) \<longrightarrow> r = Inl e'"
      unfolding c' by auto
    have a: "\<forall>(c, a, x)\<in>set (checks_of (emitted w w')). Upgrade config (Inr a) \<in> set (emitted w w')"
      using up unfolding c' by auto
    have nn: "checks_of (emitted w w') \<noteq> []" unfolding c' by (simp add: additional_checks_def)
    from m b b' s a nn Inr show ?thesis by (simp add: additional_checks_def)
  qed
qed (auto simp: additional_checks_def)

theorem semantic_checks_fixed_order_witness:
  "fst (validate_config example_env 0 (start_world doc_duplicate_names))
     = Inl (Raised ''ConfigValidationError'')
   \<and> checks_of (emitted (start_world doc_duplicate_names)
        (snd (validate_config example_env 0 (start_world doc_duplicate_names))))
     = [(check_validation_metrics_are_valid, Suc 0, None),
        (check_feature_names_unique, Suc 0, Some (Raised ''ConfigValidationError''))]
   \<and> fst (validate_config example_env 0 (start_world doc_valid)) = Inr ()
   \<and> map fst (checks_of (emitted (start_world doc_valid)
        (snd (validate_config example_env 0 (start_world doc_valid))))) = additional_checks"
proof -
  let ?w = "start_world doc_duplicate_names"
  obtain r w' where run: "validate_config example_env 0 ?w = (r, w')"
    by (cases "validate_config example_env 0 ?w")
  with example_run_duplicate_names
  have c: "checks_of (emitted ?w w') =
      [(check_validation_metrics_are_valid, Suc 0, None),
       (check_feature_names_unique, Suc 0, Some (Raised ''ConfigValidationError''))]"
    by (simp add: emitted_start checks_of_append checks_of_none example_prefix_def
        example_locked_def)
  then have "(check_feature_names_unique, Suc 0, Some (Raised ''ConfigValidationError''))
      \<in> set (checks_of (emitted ?w w'))" by simp
  with semantic_checks_fixed_order [OF run] have r: "r = Inl (Raised ''ConfigValidationError'')"
    by blast
  let ?v = "start_world doc_valid"
  obtain r2 w2 where run2: "validate_config example_env 0 ?v = (r2, w2)"
    by (cases "validate_config example_env 0 ?v")
  with example_run_valid have r2: "r2 = Inr ()" by simp
  with semantic_checks_fixed_order [OF run2]
  have "map fst (checks_of (emitted ?v w2)) = additional_checks" by blast
  with r c r2 run run2 show ?thesis by simp
qed

text \<open>
  Claim C4, as amended. The source reads the model type (line 108) before it validates
  the split (lines 110 and 111), so split validation does not come before discriminator
  extraction. What holds: the model type is read after the upgrade, from the upgraded
  document, with \<^verbatim>\<open>MODEL_ECD\<close> as the default; split validation (the read of
  \<^verbatim>\<open>preprocessing.split\<close>, empty when absent, the call of \<^verbatim>\<open>get_splitter\<close> and the
  splitter's \<^verbatim>\<open>validate\<close> on the upgraded document) comes after the read of the model
  type and before the lock is taken, the schema is acquired and the structural
  validator is called; and when the splitter's \<^verbatim>\<open>validate\<close> raises, its exception is
  the outcome and neither schema acquisition nor structural validation nor any check
  happens.
\<close>

theorem split_validation_position:
  assumes "validate_config env config w = (r, w')"
  shows "preceded (in_stages [Upgrading]) (in_stages [Discriminator]) (emitted w w')
       \<and> preceded (in_stages [Discriminator]) (in_stages [SplitValidation]) (emitted w w')
       \<and> preceded split_validated
            (in_stages [Acquire, SchemaAcquisition, ValidatorAcquisition, Structural])
            (emitted w w')
       \<and> (\<forall>u e. SplitterValidate u (Some e) \<in> set (emitted w w') \<longrightarrow>
            r = Inl e \<and>
            \<not> list_ex
                 (in_stages [Acquire, SchemaAcquisition, ValidatorAcquisition, Structural, Semantic])
                 (emitted w w'))
       \<and> (\<forall>m. ReadModelType (Inr m) \<in> set (emitted w w') \<longrightarrow>
            (\<exists>u s1. upgrade_config_dict_to_latest_version env config (objects w) = (Inr u, s1)
               \<and> py_get (s1 u) MODEL_TYPE (PStr (MODEL_ECD env)) = Inr m))
       \<and> (\<forall>k x. GetSplitter k x \<in> set (emitted w w') \<longrightarrow>
            (\<exists>u s1. upgrade_config_dict_to_latest_version env config (objects w) = (Inr u, s1)
               \<and> split_kwargs (s1 u) = Inr k))
       \<and> (\<forall>u x. SplitterValidate u x \<in> set (emitted w w') \<longrightarrow>
            (\<exists>s1. upgrade_config_dict_to_latest_version env config (objects w) = (Inr u, s1)))
       \<and> (\<forall>d. map_of d MODEL_TYPE = None \<longrightarrow>
            py_get (PDict d) MODEL_TYPE (PStr (MODEL_ECD env)) = Inr (PStr (MODEL_ECD env)))
       \<and> (\<forall>d. map_of d PREPROCESSING = None \<longrightarrow> split_kwargs (PDict d) = Inr [])
       \<and> (\<forall>d p. map_of d PREPROCESSING = Some (PDict p) \<and> map_of p SPLIT = None \<longrightarrow>
            split_kwargs (PDict d) = Inr [])"
  using assms
proof (cases rule: validate_config_run)
  case (get_schema_raises u s1 m k e ps wa w1)
  then show ?thesis
    by (auto simp: preceded_append split_kwargs_absent list_ex_iff)
next
  case (validate_raises u s1 m k e ps xs s v wa w1 w2)
  then show ?thesis
    by (auto simp: preceded_append split_kwargs_absent list_ex_iff)
next
  case (checks_run u s1 m k ps xs s v n wa w1 w2)
  then show ?thesis
    by (auto simp: preceded_append split_kwargs_absent list_ex_iff split: sum.splits)
qed (auto simp: split_kwargs_absent list_ex_iff)

theorem split_validation_position_witness:
  "fst (validate_config example_env 0 (start_world doc_bad_split)) = Inl (Raised ''ValueError'')
   \<and> map kind (emitted (start_world doc_bad_split)
        (snd (validate_config example_env 0 (start_world doc_bad_split))))
     = [Upgrading, Discriminator, SplitValidation, SplitValidation, SplitValidation]
   \<and> \<not> list_ex (in_stages [Structural])
        (emitted (start_world doc_bad_split)
          (snd (validate_config example_env 0 (start_world doc_bad_split))))"
proof -
  let ?w = "start_world doc_bad_split"
  obtain r w' where run: "validate_config example_env 0 ?w = (r, w')"
    by (cases "validate_config example_env 0 ?w")
  with example_run_bad_split
  have e: "emitted ?w w' =
         [Upgrade 0 (Inr (Suc 0)), ReadModelType (Inr (PStr ''ecd'')),
          ReadSplit (Inr [(''type'', PStr ''stratify'')]),
          GetSplitter [(''type'', PStr ''stratify'')] None,
          SplitterValidate (Suc 0) (Some (Raised ''ValueError''))]"
    by (simp add: emitted_start)
  then have "SplitterValidate (Suc 0) (Some (Raised ''ValueError'')) \<in> set (emitted ?w w')"
    by simp
  with split_validation_position [OF run]
  have "r = Inl (Raised ''ValueError'') \<and>
      \<not> list_ex (in_stages [Acquire, SchemaAcquisition, ValidatorAcquisition, Structural, Semantic])
          (emitted ?w w')"
    by blast
  then have "r = Inl (Raised ''ValueError'')"
    and "\<not> list_ex (in_stages [Structural]) (emitted ?w w')"
    by (auto simp: list_ex_iff)
  with e run show ?thesis by simp
qed

text \<open>
  Claim C4 as stated fails: in the run of the example environment on a document whose
  split does not validate, the model type is read before any event of split validation.
\<close>

theorem split_before_discriminator_counterexample:
  "\<not> preceded (in_stages [SplitValidation]) (in_stages [Discriminator])
       (emitted (start_world doc_bad_split)
          (snd (validate_config example_env 0 (start_world doc_bad_split))))"
proof -
  let ?w = "start_world doc_bad_split"
  obtain r w' where run: "validate_config example_env 0 ?w = (r, w')"
    by (cases "validate_config example_env 0 ?w")
  with example_run_bad_split show ?thesis by (simp add: emitted_start)
qed

text \<open>
  Claim C8, as amended. The lock is held during the whole statement
  \<^verbatim>\<open>validate(instance=..., schema=get_schema(model_type=model_type), cls=get_validator())\<close>,
  and its arguments are evaluated after the lock is taken: the events under the lock
  are the call of \<^verbatim>\<open>get_schema\<close> (with the fragment providers it runs on a cache miss),
  then the call of \<^verbatim>\<open>get_validator\<close> (with the construction of the class on a miss),
  then the structural validator, called last with the upgraded document, the schema
  and the validator class just obtained. The upgrade, the read of the model type, split
  validation and the semantic checks happen while the lock is free, and the lock is
  free again at the end of every run, whether it returns or raises.
\<close>

theorem lock_scope:
  assumes "validate_config env config w = (r, w')"
  shows "list_all (in_stages [SchemaAcquisition, ValidatorAcquisition, Structural])
            (under_lock False (emitted w w'))
       \<and> list_all (in_stages [Upgrading, Discriminator, SplitValidation, Semantic])
            (outside_lock False (emitted w w'))
       \<and> \<not> lock_held False (emitted w w')
       \<and> \<not> list_ex (in_stages [Structural]) (butlast (under_lock False (emitted w w')))
       \<and> (under_lock False (emitted w w') \<noteq> [] \<longrightarrow>
            (\<exists>m. hd (under_lock False (emitted w w')) = GetSchema (Keyword m)))
       \<and> (\<forall>u s v x. Validate u s v x \<in> set (emitted w w') \<longrightarrow>
            Upgrade config (Inr u) \<in> set (emitted w w')
            \<and> (\<exists>m wa w1 w2. ReadModelType (Inr m) \<in> set (emitted w w')
                 \<and> schema_cache wa = schema_cache w \<and> validator_cache wa = validator_cache w
                 \<and> get_schema env (Keyword m) wa = (Inr s, w1)
                 \<and> get_validator env w1 = (v, w2)))"
  using assms
proof (cases rule: validate_config_run)
  case (get_schema_raises u s1 m k e ps wa w1)
  then show ?thesis
    by (auto simp: under_lock_append outside_lock_append lock_held_append list_all_iff list_ex_iff
        dest: in_set_butlastD)
next
  case (validate_raises u s1 m k e ps xs s v wa w1 w2)
  have "\<exists>m wa w1 w2. ReadModelType (Inr m) \<in> set (emitted w w')
      \<and> schema_cache wa = schema_cache w \<and> validator_cache wa = validator_cache w
      \<and> get_schema env (Keyword m) wa = (Inr s, w1) \<and> get_validator env w1 = (v, w2)"
    using validate_raises by (intro exI [of _ m] exI [of _ wa] exI [of _ w1] exI [of _ w2]) simp
  with validate_raises(5,6,7) show ?thesis
    by (auto simp: under_lock_append outside_lock_append lock_held_append list_all_iff list_ex_iff
        butlast_append dest: in_set_butlastD)
next
  case (checks_run u s1 m k ps xs s v n wa w1 w2)
  have "\<exists>m wa w1 w2. ReadModelType (Inr m) \<in> set (emitted w w')
      \<and> schema_cache wa = schema_cache w \<and> validator_cache wa = validator_cache w
      \<and> get_schema env (Keyword m) wa = (Inr s, w1) \<and> get_validator env w1 = (v, w2)"
    using checks_run by (intro exI [of _ m] exI [of _ wa] exI [of _ w1] exI [of _ w2]) simp
  with checks_run(4,5,6) show ?thesis
    by (auto simp: under_lock_append outside_lock_append lock_held_append list_all_iff list_ex_iff
        butlast_append dest: in_set_butlastD in_set_takeD split: sum.splits)
qed auto

theorem lock_scope_witness:
  "map kind (under_lock False (emitted (start_world doc_valid)
        (snd (validate_config example_env 0 (start_world doc_valid)))))
     = [SchemaAcquisition, SchemaAcquisition, SchemaAcquisition, SchemaAcquisition,
        SchemaAcquisition, SchemaAcquisition, SchemaAcquisition, SchemaAcquisition,
        SchemaAcquisition, ValidatorAcquisition, ValidatorAcquisition, Structural]
   \<and> hd (under_lock False (emitted (start_world doc_valid)
        (snd (validate_config example_env 0 (start_world doc_valid)))))
     = GetSchema (Keyword (PStr ''ecd''))
   \<and> \<not> lock_held False (emitted (start_world doc_valid)
        (snd (validate_config example_env 0 (start_world doc_valid))))"
proof -
  let ?w = "start_world doc_valid"
  obtain r w' where run: "validate_config example_env 0 ?w = (r, w')"
    by (cases "validate_config example_env 0 ?w")
  with example_run_valid
  have u: "under_lock False (emitted ?w w') = butlast (tl (example_locked None))"
    by (simp add: emitted_start example_prefix_def example_locked_def additional_checks_def)
  from lock_scope [OF run] have "\<not> lock_held False (emitted ?w w')" by blast
  with u run show ?thesis by (simp add: example_locked_def)
qed

text \<open>
  Claim C8 as stated fails: in the run of the example environment on a valid document
  in a fresh process, the events under the lock are not only the call of the structural
  validator.
\<close>

theorem lock_held_only_during_validate_counterexample:
  "\<not> list_all (in_stages [Structural])
       (under_lock False (emitted (start_world doc_valid)
          (snd (validate_config example_env 0 (start_world doc_valid)))))"
proof -
  let ?w = "start_world doc_valid"
  obtain r w' where run: "validate_config example_env 0 ?w = (r, w')"
    by (cases "validate_config example_env 0 ?w")
  with example_run_valid show ?thesis
    by (simp add: emitted_start example_prefix_def example_locked_def)
qed

text \<open>
  Claim C7. If the upgrader leaves its argument as it was and returns another object
  (its contract in the specification), and every collaborator changes at most the
  document it is handed, then the caller's document is the same after
  \<^verbatim>\<open>validate_config\<close> as before, whether the run returns or raises: the caller's
  document is handed to the upgrader only, and every later stage is handed the upgraded
  one.
\<close>

theorem caller_document_unchanged:
  assumes up: "returns_new_value (upgrade_config_dict_to_latest_version env)"
    and conf: "collaborators_confined env"
    and run: "validate_config env config w = (r, w')"
  shows "objects w' config = objects w config
       \<and> (\<forall>e\<in>set (emitted w w'). kind e = Upgrading \<longrightarrow> receives e = Some config)
       \<and> (\<forall>e\<in>set (emitted w w'). kind e \<noteq> Upgrading \<longrightarrow> receives e \<noteq> Some config)"
proof -
  have "(\<forall>e\<in>set (emitted w w'). kind e = Upgrading \<longrightarrow> receives e = Some config)
       \<and> (\<forall>e\<in>set (emitted w w'). kind e \<noteq> Upgrading \<longrightarrow> receives e \<noteq> Some config)"
    using run
  proof (cases rule: validate_config_run)
    case (upgrade_raises e)
    then show ?thesis by simp
  next
    case (discriminator_raises u s1 e)
    then show ?thesis by simp
  next
    case (split_read_raises u s1 m e)
    then show ?thesis by simp
  next
    case (get_splitter_raises u s1 m k e)
    then show ?thesis by simp
  next
    case (splitter_validate_raises u s1 m k e)
    with upgrade_new [OF up splitter_validate_raises(1)] show ?thesis by simp
  next
    case (get_schema_raises u s1 m k e ps wa w1)
    with upgrade_new [OF up get_schema_raises(1)] show ?thesis
      by (auto simp: receives_none)
  next
    case (validate_raises u s1 m k e ps xs s v wa w1 w2)
    with upgrade_new [OF up validate_raises(1)] show ?thesis
      by (auto simp: receives_none)
  next
    case (checks_run u s1 m k ps xs s v n wa w1 w2)
    with upgrade_new [OF up checks_run(1)] show ?thesis
      by (auto simp: receives_none dest: in_set_takeD split: sum.splits)
  qed
  with validate_config_objects [OF up conf run] show ?thesis by simp
qed

theorem caller_document_unchanged_witness:
  "returns_new_value (upgrade_config_dict_to_latest_version example_env_overwriting)
   \<and> collaborators_confined example_env_overwriting
   \<and> fst (validate_config example_env_overwriting 0 (start_world doc_valid)) = Inr ()
   \<and> objects (snd (validate_config example_env_overwriting 0 (start_world doc_valid))) 0
       = doc_valid
   \<and> objects (snd (validate_config example_env_overwriting 0 (start_world doc_valid))) (Suc 0)
       = PNone"
proof -
  let ?w = "start_world doc_valid"
  have up: "returns_new_value (upgrade_config_dict_to_latest_version example_env_overwriting)"
    using example_contracts(1) by (simp add: example_env_overwriting_def example_env_def)
  have conf: "collaborators_confined example_env_overwriting"
    using example_contracts(2,3)
    by (auto simp: collaborators_confined_def example_env_overwriting_def example_env_def
        changes_only_argument_def)
  obtain r w' where run: "validate_config example_env_overwriting 0 ?w = (r, w')"
    by (cases "validate_config example_env_overwriting 0 ?w")
  from caller_document_unchanged [OF up conf run]
  have "objects w' 0 = objects ?w 0" by blast
  then have "objects w' 0 = doc_valid" by (simp add: start_world_def)
  with up conf run example_run_overwriting show ?thesis by simp
qed

section \<open>The schema assembler\<close>

text \<open>
  Claim C3. With the trainer fragment provider of the specification (a registry of
  model types), \<^verbatim>\<open>get_schema\<close> called for a model type string that is not registered
  returns no schema: it raises, and the exception is \<^verbatim>\<open>UnknownModelType\<close> of that
  string when the four providers evaluated before the trainer's return.
\<close>

theorem unknown_model_type_fails:
  assumes "schema_cache_sound env w"
    and "get_trainer_jsonschema env = registered_trainer_jsonschema registry"
    and "map_of registry m = None"
    and "bound_model_type env args = PStr m"
  shows "(\<exists>e. fst (get_schema env args w) = Inl e)
       \<and> (raised (get_model_type_jsonschema env) = None
          \<and> raised (get_input_feature_jsonschema env) = None
          \<and> raised (get_output_feature_jsonschema env) = None
          \<and> raised (get_combiner_jsonschema env) = None
          \<longrightarrow> fst (get_schema env args w) = Inl (UnknownModelType (PStr m)))"
proof -
  have t: "get_trainer_jsonschema env (PStr m) = Inl (UnknownModelType (PStr m))"
    using assms(2,3) by (simp add: registered_trainer_jsonschema_def)
  have g: "fst (get_schema env args w) = fst (get_schema_wrapped env (PStr m) w)"
    using assms(1,4) by (simp add: get_schema_result hashable_args_string)
  have "\<exists>e. fst (get_schema env args w) = Inl e"
  proof (cases "fst (get_schema env args w)")
    case (Inr schema)
    from get_schema_Inr [OF assms(1) Inr] assms(4) t show ?thesis by auto
  qed simp
  moreover have "fst (get_schema env args w) = Inl (UnknownModelType (PStr m))"
    if "raised (get_model_type_jsonschema env) = None"
      "raised (get_input_feature_jsonschema env) = None"
      "raised (get_output_feature_jsonschema env) = None"
      "raised (get_combiner_jsonschema env) = None"
  proof -
    from that obtain f1 f2 f3 f4 where
      "get_model_type_jsonschema env = Inr f1" "get_input_feature_jsonschema env = Inr f2"
      "get_output_feature_jsonschema env = Inr f3" "get_combiner_jsonschema env = Inr f4"
      by (auto simp: raised_def split: sum.splits)
    from get_schema_wrapped_trainer_raises [OF this t] g show ?thesis by simp
  qed
  ultimately show ?thesis by blast
qed

theorem unknown_model_type_fails_witness:
  "schema_cache_sound example_env_registry (start_world doc_valid)
   \<and> map_of example_registry ''llm'' = None
   \<and> fst (get_schema example_env_registry (Positional (PStr ''llm'')) (start_world doc_valid))
       = Inl (UnknownModelType (PStr ''llm''))
   \<and> fst (get_schema example_env_registry (Keyword (PStr ''llm'')) (start_world doc_valid))
       = Inl (UnknownModelType (PStr ''llm''))"
proof -
  let ?w = "start_world doc_valid"
  have s: "schema_cache_sound example_env_registry ?w"
    by (rule schema_cache_sound_start) (simp add: start_world_def)
  have t: "get_trainer_jsonschema example_env_registry
      = registered_trainer_jsonschema example_registry"
    by (simp add: example_env_registry_def example_env_def)
  have m: "map_of example_registry ''llm'' = None" by (simp add: example_registry_def)
  have p: "raised (get_model_type_jsonschema example_env_registry) = None
      \<and> raised (get_input_feature_jsonschema example_env_registry) = None
      \<and> raised (get_output_feature_jsonschema example_env_registry) = None
      \<and> raised (get_combiner_jsonschema example_env_registry) = None"
    by (simp add: example_env_registry_def example_env_def raised_def)
  from unknown_model_type_fails [OF s t m, of "Positional (PStr ''llm'')"] p
  have 1: "fst (get_schema example_env_registry (Positional (PStr ''llm'')) ?w)
      = Inl (UnknownModelType (PStr ''llm''))" by simp
  from unknown_model_type_fails [OF s t m, of "Keyword (PStr ''llm'')"] p
  have 2: "fst (get_schema example_env_registry (Keyword (PStr ''llm'')) ?w)
      = Inl (UnknownModelType (PStr ''llm''))" by simp
  from s m 1 2 show ?thesis by simp
qed

text \<open>
  Claim C5. \<^verbatim>\<open>get_schema\<close> returns a schema whenever its fragment providers return.
  The schema it returns has \<^verbatim>\<open>required\<close> equal to
  \<^verbatim>\<open>[input_features, output_features]\<close>, and its \<^verbatim>\<open>properties\<close> has exactly the
  eight keys \<^verbatim>\<open>model_type\<close>, \<^verbatim>\<open>input_features\<close>, \<^verbatim>\<open>output_features\<close>,
  \<^verbatim>\<open>combiner\<close>, \<^verbatim>\<open>trainer\<close>, \<^verbatim>\<open>preprocessing\<close>, \<^verbatim>\<open>hyperopt\<close>,
  \<^verbatim>\<open>defaults\<close>, whatever the model type; each key is bound to the fragment of its
  provider, and only the trainer's provider is given the model type.
\<close>

theorem schema_required_and_properties:
  assumes "schema_cache_sound env w"
  shows "(hashable_args args \<and> providers_return env (bound_model_type env args) \<longrightarrow>
            (\<exists>schema. fst (get_schema env args w) = Inr schema))
       \<and> (\<forall>schema. fst (get_schema env args w) = Inr schema \<longrightarrow>
            py_get schema ''required'' PNone
              = Inr (PList [PStr ''input_features'', PStr ''output_features''])
            \<and> (\<exists>properties. py_get schema ''properties'' PNone = Inr properties
                 \<and> dict_keys properties =
                     [''model_type'', ''input_features'', ''output_features'', ''combiner'',
                      ''trainer'', ''preprocessing'', ''hyperopt'', ''defaults''])
            \<and> (\<exists>f1 f2 f3 f4 f5 f6 f7 f8.
                 get_model_type_jsonschema env = Inr f1 \<and>
                 get_input_feature_jsonschema env = Inr f2 \<and>
                 get_output_feature_jsonschema env = Inr f3 \<and>
                 get_combiner_jsonschema env = Inr f4 \<and>
                 get_trainer_jsonschema env (bound_model_type env args) = Inr f5 \<and>
                 get_preprocessing_jsonschema env = Inr f6 \<and>
                 get_hyperopt_jsonschema env = Inr f7 \<and>
                 get_defaults_jsonschema env = Inr f8 \<and>
                 py_get schema ''properties'' PNone =
                   Inr (PDict [(''model_type'', f1), (''input_features'', f2),
                               (''output_features'', f3), (''combiner'', f4), (''trainer'', f5),
                               (''preprocessing'', f6), (''hyperopt'', f7), (''defaults'', f8)])))"
proof -
  have "\<exists>schema. fst (get_schema env args w) = Inr schema"
    if h: "hashable_args args" and p: "providers_return env (bound_model_type env args)"
  proof -
    from p obtain f1 f2 f3 f4 f5 f6 f7 f8 where
      f: "get_model_type_jsonschema env = Inr f1" "get_input_feature_jsonschema env = Inr f2"
        "get_output_feature_jsonschema env = Inr f3" "get_combiner_jsonschema env = Inr f4"
        "get_trainer_jsonschema env (bound_model_type env args) = Inr f5"
        "get_preprocessing_jsonschema env = Inr f6"
        "get_hyperopt_jsonschema env = Inr f7" "get_defaults_jsonschema env = Inr f8"
      unfolding providers_return_def raised_def by (auto split: sum.splits)
    from get_schema_wrapped_returns [OF f, of w] h assms show ?thesis
      by (simp add: get_schema_result)
  qed
  moreover have "py_get schema ''required'' PNone
              = Inr (PList [PStr ''input_features'', PStr ''output_features''])
            \<and> (\<exists>properties. py_get schema ''properties'' PNone = Inr properties
                 \<and> dict_keys properties =
                     [''model_type'', ''input_features'', ''output_features'', ''combiner'',
                      ''trainer'', ''preprocessing'', ''hyperopt'', ''defaults''])
            \<and> (\<exists>f1 f2 f3 f4 f5 f6 f7 f8.
                 get_model_type_jsonschema env = Inr f1 \<and>
                 get_input_feature_jsonschema env = Inr f2 \<and>
                 get_output_feature_jsonschema env = Inr f3 \<and>
                 get_combiner_jsonschema env = Inr f4 \<and>
                 get_trainer_jsonschema env (bound_model_type env args) = Inr f5 \<and>
                 get_preprocessing_jsonschema env = Inr f6 \<and>
                 get_hyperopt_jsonschema env = Inr f7 \<and>
                 get_defaults_jsonschema env = Inr f8 \<and>
                 py_get schema ''properties'' PNone =
                   Inr (PDict [(''model_type'', f1), (''input_features'', f2),
                               (''output_features'', f3), (''combiner'', f4), (''trainer'', f5),
                               (''preprocessing'', f6), (''hyperopt'', f7), (''defaults'', f8)]))"
    if r: "fst (get_schema env args w) = Inr schema" for schema
    using get_schema_Inr [OF assms r] by (auto simp: dict_keys_def)
  ultimately show ?thesis by blast
qed

theorem schema_required_and_properties_witness:
  "schema_cache_sound example_env (start_world doc_valid)
   \<and> fst (get_schema example_env (Positional (PStr ''gbm'')) (start_world doc_valid))
       = Inr example_schema
   \<and> py_get example_schema ''required'' PNone
       = Inr (PList [PStr ''input_features'', PStr ''output_features''])
   \<and> py_get example_schema ''properties'' PNone = Inr example_properties
   \<and> dict_keys example_properties =
         [''model_type'', ''input_features'', ''output_features'', ''combiner'',
          ''trainer'', ''preprocessing'', ''hyperopt'', ''defaults'']"
proof -
  let ?w = "start_world doc_valid"
  have s: "schema_cache_sound example_env ?w"
    by (rule schema_cache_sound_start) (simp add: start_world_def)
  have g: "fst (get_schema example_env (Positional (PStr ''gbm'')) ?w) = Inr example_schema"
    by (rule example_get_schema)
  have p: "py_get example_schema ''properties'' PNone = Inr example_properties"
    by (simp add: example_schema_def)
  from schema_required_and_properties [OF s, of "Positional (PStr ''gbm'')"] g
  have "py_get example_schema ''required'' PNone
       = Inr (PList [PStr ''input_features'', PStr ''output_features''])
   \<and> (\<exists>properties. py_get example_schema ''properties'' PNone = Inr properties
        \<and> dict_keys properties =
            [''model_type'', ''input_features'', ''output_features'', ''combiner'',
             ''trainer'', ''preprocessing'', ''hyperopt'', ''defaults''])"
    by blast
  with p have "py_get example_schema ''required'' PNone
       = Inr (PList [PStr ''input_features'', PStr ''output_features''])
   \<and> dict_keys example_properties =
         [''model_type'', ''input_features'', ''output_features'', ''combiner'',
          ''trainer'', ''preprocessing'', ''hyperopt'', ''defaults'']"
    by auto
  with s g p show ?thesis by blast
qed

text \<open>
  Claim C10. Every schema \<^verbatim>\<open>get_schema\<close> returns has \<^verbatim>\<open>type\<close> equal to
  \<^verbatim>\<open>object\<close> and \<^verbatim>\<open>definitions\<close> bound to the empty mapping, whatever the model
  type.
\<close>

theorem schema_type_and_definitions:
  assumes "schema_cache_sound env w" and "fst (get_schema env args w) = Inr schema"
  shows "py_get schema ''type'' PNone = Inr (PStr ''object'')
       \<and> py_get schema ''definitions'' PNone = Inr (PDict [])
       \<and> dict_keys schema = [''type'', ''properties'', ''definitions'', ''required'']"
  using get_schema_Inr [OF assms] by (auto simp: dict_keys_def)

theorem schema_type_and_definitions_witness:
  "schema_cache_sound example_env (start_world doc_valid)
   \<and> fst (get_schema example_env (Positional (PStr ''ecd'')) (start_world doc_valid))
       = Inr example_schema
   \<and> py_get example_schema ''type'' PNone = Inr (PStr ''object'')
   \<and> py_get example_schema ''definitions'' PNone = Inr (PDict [])"
proof -
  let ?w = "start_world doc_valid"
  have s: "schema_cache_sound example_env ?w"
    by (rule schema_cache_sound_start) (simp add: start_world_def)
  have g: "fst (get_schema example_env (Positional (PStr ''ecd'')) ?w) = Inr example_schema"
    by (rule example_get_schema)
  from schema_type_and_definitions [OF s g] s g show ?thesis by blast
qed

section \<open>The type-checker extension\<close>

text \<open>
  Claim C6. The type checker of the validator class \<^verbatim>\<open>get_validator\<close> returns holds
  for \<^verbatim>\<open>array\<close> on every list and on every tuple and on no other value, so a tuple
  passes the \<^verbatim>\<open>array\<close> type check wherever a list does; the predicates of the other
  types are those of \<^verbatim>\<open>Draft7Validator\<close>. The same holds of every validator class a
  run of \<^verbatim>\<open>validate_config\<close> hands to the structural validator.
\<close>

theorem array_type_accepts_lists_and_tuples:
  assumes "validator_cache_sound env w" and "get_validator env w = (cls, w')"
  shows "is_type (TYPE_CHECKER cls) (PList xs) ''array'' = Inr True
       \<and> is_type (TYPE_CHECKER cls) (PTuple xs) ''array'' = Inr True
       \<and> is_type (TYPE_CHECKER cls) v ''array''
           = Inr ((\<exists>ys. v = PList ys) \<or> (\<exists>ys. v = PTuple ys))
       \<and> (name \<noteq> ''array'' \<longrightarrow>
            is_type (TYPE_CHECKER cls) v name = is_type (Draft7Validator_TYPE_CHECKER env) v name)
       \<and> custom_is_array checker v = ((\<exists>ys. v = PList ys) \<or> (\<exists>ys. v = PTuple ys))
       \<and> (\<forall>config r w''. validate_config env config w = (r, w'') \<longrightarrow>
            (\<forall>c\<in>set (validators_of (emitted w w'')).
               is_type (TYPE_CHECKER c) (PTuple xs) ''array'' = Inr True
               \<and> is_type (TYPE_CHECKER c) (PList xs) ''array'' = Inr True
               \<and> is_type (TYPE_CHECKER c) v ''array''
                   = Inr ((\<exists>ys. v = PList ys) \<or> (\<exists>ys. v = PTuple ys))))"
proof -
  note t = get_validator_sound(1) [OF assms]
  have "is_type (TYPE_CHECKER c) (PTuple xs) ''array'' = Inr True
      \<and> is_type (TYPE_CHECKER c) (PList xs) ''array'' = Inr True
      \<and> is_type (TYPE_CHECKER c) v ''array''
           = Inr ((\<exists>ys. v = PList ys) \<or> (\<exists>ys. v = PTuple ys))"
    if "validate_config env config w = (r, w'')" "c \<in> set (validators_of (emitted w w''))"
    for config r w'' c
  proof -
    from validate_config_validators_sound [OF assms(1) that(1)] that(2)
    have "TYPE_CHECKER c = redefine (Draft7Validator_TYPE_CHECKER env) ''array'' custom_is_array"
      by blast
    from redefined_array(1) [OF this] show ?thesis by simp
  qed
  with redefined_array [OF t] show ?thesis
    by (simp add: custom_is_array_iff)
qed

theorem array_type_accepts_lists_and_tuples_witness:
  "validator_cache_sound example_env (start_world doc_valid)
   \<and> is_type (TYPE_CHECKER (fst (get_validator example_env (start_world doc_valid))))
        (PTuple [PStr ''a'', PStr ''b'']) ''array'' = Inr True
   \<and> is_type (TYPE_CHECKER (fst (get_validator example_env (start_world doc_valid))))
        (PList [PStr ''a'', PStr ''b'']) ''array'' = Inr True
   \<and> is_type (TYPE_CHECKER (fst (get_validator example_env (start_world doc_valid))))
        (PStr ''ab'') ''array'' = Inr False
   \<and> is_type (Draft7Validator_TYPE_CHECKER example_env)
        (PTuple [PStr ''a'', PStr ''b'']) ''array'' = Inr False"
proof -
  let ?w = "start_world doc_valid"
  have s: "validator_cache_sound example_env ?w"
    by (rule validator_cache_sound_start) (simp add: start_world_def)
  obtain cls w' where g: "get_validator example_env ?w = (cls, w')"
    by (cases "get_validator example_env ?w")
  note a = array_type_accepts_lists_and_tuples [OF s g]
  from a [where xs = "[PStr ''a'', PStr ''b'']" and v = "PStr ''ab''" and name = "''object''"
      and checker = "()"]
  have "is_type (TYPE_CHECKER cls) (PTuple [PStr ''a'', PStr ''b'']) ''array'' = Inr True"
    and "is_type (TYPE_CHECKER cls) (PList [PStr ''a'', PStr ''b'']) ''array'' = Inr True"
    and "is_type (TYPE_CHECKER cls) (PStr ''ab'') ''array'' = Inr False"
    by simp_all
  moreover have "is_type (Draft7Validator_TYPE_CHECKER example_env)
        (PTuple [PStr ''a'', PStr ''b'']) ''array'' = Inr False"
    by (simp add: example_env_def is_type_def isinstance_list_def)
  ultimately show ?thesis using s g by simp
qed

text \<open>
  Claim C9, as the code has it. Threads start calls of \<^verbatim>\<open>get_validator\<close> and runs of
  \<^verbatim>\<open>validate_config\<close> with the lock free and the validator cache empty or holding one
  class, and take their steps in any order. Suppose that the calls made while the cache
  is empty are serialized: every thread is a run of \<^verbatim>\<open>validate_config\<close>, which calls
  \<^verbatim>\<open>get_validator\<close> under the lock, or one call of \<^verbatim>\<open>get_validator\<close> takes its three
  steps before any other thread moves. Then every class a call of \<^verbatim>\<open>get_validator\<close>
  has returned and every class handed to the structural validator is the class in the
  cache, so all of them are one object; at most one class is built; and if the cache
  held a class at the start, it still holds that class and none is built.
\<close>

theorem validator_memoized:
  assumes start: "\<forall>t\<in>set ts. fresh t" "\<not> locked"
    and cache: "validator_cache w = [] \<or> validator_cache w = [((), cls)]"
    and first: "validator_cache w = [] \<Longrightarrow>
        (\<forall>t\<in>set ts. validating t)
        \<or> (\<exists>i rest. sched = i # i # i # rest \<and> i < length ts \<and> ts ! i = Caller Lookup)"
    and run: "run env sched (ts, locked, w) = (ts', locked', w')"
  shows "(\<forall>c\<in>set (classes_returned ts' @ validators_of (emitted w w')).
            validator_cache w' = [((), c)])
       \<and> classes_built w' \<le> Suc (classes_built w)
       \<and> (validator_cache w = [((), cls)] \<longrightarrow>
            validator_cache w' = [((), cls)] \<and> classes_built w' = classes_built w)"
proof (cases "validator_cache w = []")
  case False
  with cache have c: "validator_cache w = [((), cls)]" by simp
  with start have "warm cls (length (trace w)) (classes_built w) (ts, locked, w)"
    by (simp add: warm_def fresh_simps)
  from run_warm [OF this, of env sched] run
  have "warm cls (length (trace w)) (classes_built w) (ts', locked', w')" by simp
  from warm_final [OF this] show ?thesis by auto
next
  case True
  from first [OF True] show ?thesis
  proof (elim disjE exE conjE)
    assume v: "\<forall>t\<in>set ts. validating t"
    from start have "\<forall>i<length ts. \<not> inside (ts ! i) \<and> \<not> computed (ts ! i)"
      by (simp add: fresh_simps)
    with True start v have "cold (length (trace w)) (classes_built w) (ts, locked, w)"
      by (simp add: cold_def fresh_simps)
    from run_cold [OF this, of env sched] run
    have "cold (length (trace w)) (classes_built w) (ts', locked', w')
        \<or> (\<exists>c. warm c (length (trace w)) (Suc (classes_built w)) (ts', locked', w'))" by simp
    then show ?thesis
    proof (elim disjE exE)
      assume "cold (length (trace w)) (classes_built w) (ts', locked', w')"
      with True classes_returned_validating [of ts'] show ?thesis
        by (auto simp: cold_def emitted_def)
    next
      fix c
      assume "warm c (length (trace w)) (Suc (classes_built w)) (ts', locked', w')"
      from warm_final [OF this] True show ?thesis by auto
    qed
  next
    fix i rest
    assume s: "sched = i # i # i # rest" and i: "i < length ts" "ts ! i = Caller Lookup"
    from first_call_alone [OF True i start(1), of env locked] obtain c where
      "warm c (length (trace w)) (Suc (classes_built w)) (run env [i, i, i] (ts, locked, w))" ..
    from run_warm [OF this, of env rest] run s
    have "warm c (length (trace w)) (Suc (classes_built w)) (ts', locked', w')"
      by simp
    from warm_final [OF this] True show ?thesis by auto
  qed
qed

theorem validator_memoized_witness:
  "validator_cache (start_world doc_valid) = []
   \<and> validators_of (emitted (start_world doc_valid)
        (snd (snd (run example_env example_schedule
           (example_threads, False, start_world doc_valid))))) = [example_cls, example_cls]
   \<and> classes_built (snd (snd (run example_env example_schedule
        (example_threads, False, start_world doc_valid)))) \<le> 1
   \<and> classes_returned (fst (run example_env example_schedule_direct
        (example_threads_direct, False, start_world doc_valid))) = [example_cls, example_cls]
   \<and> validators_of (emitted (start_world doc_valid)
        (snd (snd (run example_env example_schedule_direct
           (example_threads_direct, False, start_world doc_valid))))) = [example_cls]
   \<and> classes_built (snd (snd (run example_env example_schedule_direct
        (example_threads_direct, False, start_world doc_valid)))) \<le> 1"
proof -
  let ?w = "start_world doc_valid"
  have c: "validator_cache ?w = []" by (simp add: start_world_def)
  have b: "classes_built ?w = 0" by (simp add: start_world_def)
  obtain ts1 l1 w1 where r1: "run example_env example_schedule (example_threads, False, ?w)
      = (ts1, l1, w1)"
    by (cases "run example_env example_schedule (example_threads, False, ?w)")
  have f1: "\<forall>t\<in>set example_threads. fresh t" and v1: "\<forall>t\<in>set example_threads. validating t"
    by (simp_all add: example_threads_def)
  from validator_memoized [OF f1 _ _ _ r1, where cls = example_cls] c v1
  have t1: "\<forall>c\<in>set (classes_returned ts1 @ validators_of (emitted ?w w1)).
        validator_cache w1 = [((), c)]"
    and n1: "classes_built w1 \<le> Suc (classes_built ?w)" by simp_all
  from example_run_threads r1 have e1: "length (validators_of (emitted ?w w1)) = 2"
    "validator_cache w1 = [((), example_cls)]" by (simp_all add: emitted_start)
  from t1 e1 have "validators_of (emitted ?w w1) = [example_cls, example_cls]"
    by (auto simp: length_Suc_conv numeral_2_eq_2)
  with n1 b r1
  have first: "validators_of (emitted ?w
        (snd (snd (run example_env example_schedule (example_threads, False, ?w)))))
      = [example_cls, example_cls]
    \<and> classes_built (snd (snd (run example_env example_schedule (example_threads, False, ?w)))) \<le> 1"
    by simp
  obtain ts2 l2 w2 where
    r2: "run example_env example_schedule_direct (example_threads_direct, False, ?w) = (ts2, l2, w2)"
    by (cases "run example_env example_schedule_direct (example_threads_direct, False, ?w)")
  have f2: "\<forall>t\<in>set example_threads_direct. fresh t"
    by (simp add: example_threads_direct_def)
  have a2: "\<exists>i rest. example_schedule_direct = i # i # i # rest
      \<and> i < length example_threads_direct \<and> example_threads_direct ! i = Caller Lookup"
    by (intro exI [of _ 0] exI [of _ "concat (replicate 3 [1, 2]) @ replicate 26 1"])
      (simp add: example_schedule_direct_def example_threads_direct_def)
  from validator_memoized [OF f2 _ _ _ r2, where cls = example_cls] c a2
  have t2: "\<forall>c\<in>set (classes_returned ts2 @ validators_of (emitted ?w w2)).
        validator_cache w2 = [((), c)]"
    and n2: "classes_built w2 \<le> Suc (classes_built ?w)" by simp_all
  from example_run_threads_direct r2 have e2: "length (classes_returned ts2) = 2"
    "length (validators_of (emitted ?w w2)) = 1"
    "validator_cache w2 = [((), example_cls)]" by (simp_all add: emitted_start)
  from t2 e2 have "classes_returned ts2 = [example_cls, example_cls]"
    "validators_of (emitted ?w w2) = [example_cls]"
    by (auto simp: length_Suc_conv numeral_2_eq_2)
  with n2 b r2
  have second: "classes_returned (fst (run example_env example_schedule_direct
        (example_threads_direct, False, ?w))) = [example_cls, example_cls]
    \<and> validators_of (emitted ?w (snd (snd (run example_env example_schedule_direct
           (example_threads_direct, False, ?w))))) = [example_cls]
    \<and> classes_built (snd (snd (run example_env example_schedule_direct
        (example_threads_direct, False, ?w)))) \<le> 1"
    by simp
  from c first second show ?thesis by simp
qed

text \<open>
  Claim C9 as stated fails: two calls of \<^verbatim>\<open>get_validator\<close> in a fresh process whose
  steps alternate both miss, and each builds and returns a class of its own.
\<close>

theorem overlapping_cold_calls_counterexample:
  "classes_returned (fst (run example_env [0, 1, 0, 1, 0, 1]
       (example_callers, False, start_world doc_valid)))
     = [example_cls, example_cls\<lparr>cls_id := 1\<rparr>]
   \<and> example_cls \<noteq> example_cls\<lparr>cls_id := 1\<rparr>
   \<and> classes_built (snd (snd (run example_env [0, 1, 0, 1, 0, 1]
       (example_callers, False, start_world doc_valid)))) = 2"
  by (simp add: example_callers_def example_defs run_defs)

end
